theory Spec2Isabelle
  imports Complex_Main
begin

section \<open>Data model of the isometric tile map (script.js)\<close>

text \<open>
  The functions modelled here are the same in \<open>script.js\<close> and \<open>script_option2.js\<close>; the two
  files differ only in how \<open>drawTile\<close> paints the side walls.

  Game configuration constants. The grid has 16 by 16 cells; a tile is drawn as a
  diamond 64 pixels wide and 32 pixels high, one height level being 16 pixels.
  The canvas is \<open>(gridSize + 1) * isoTileWidth\<close> pixels wide.
\<close>

definition gridSize :: int where
  "gridSize = 16"

definition isoTileWidth :: real where
  "isoTileWidth = 64"

definition isoTileHeight :: real where
  "isoTileHeight = 32"

definition heightStep :: real where
  "heightStep = isoTileHeight / 2"

definition canvas_width :: real where
  "canvas_width = (of_int gridSize + 1) * isoTileWidth"

text \<open>
  \<open>TILE_TYPES\<close>: a tile stores the id of one of four tile types and an integer height.
  The map is an array of rows (indexed by y), each an array of tiles (indexed by x).
\<close>

datatype tile_type = GRASS | WATER | STONE | SAND

record tile =
  ttype :: tile_type
  height :: int

type_synonym grid = "tile list list"

text \<open>
  \<open>OBJECT_TYPES\<close>: the four placeable objects and the effect each one carries.
\<close>

datatype object_type = fountain | excavator | obelisk | tree

datatype effect = raise_water | lower_terrain | raise_terrain | spread_grass

fun OBJECT_TYPES_effect :: "object_type \<Rightarrow> effect" where
  "OBJECT_TYPES_effect fountain = raise_water"
| "OBJECT_TYPES_effect excavator = lower_terrain"
| "OBJECT_TYPES_effect obelisk = raise_terrain"
| "OBJECT_TYPES_effect tree = spread_grass"

record placed_object =
  obj_x :: int
  obj_y :: int
  obj_type :: object_type
  obj_effect :: effect

text \<open>
  An entry of the \<open>changes\<close> array built by \<open>updateMap\<close>: the target cell and the
  optional \<open>type\<close> and \<open>height\<close> fields (a field that the JavaScript object literal
  leaves out is \<open>None\<close>, read back as \<open>undefined\<close>).
\<close>

record change =
  ch_x :: int
  ch_y :: int
  ch_type :: "tile_type option"
  ch_height :: "int option"

text \<open>
  Reading a property of \<open>undefined\<close> raises a TypeError in JavaScript; this is the only
  way in which the modelled functions can fail.
\<close>

datatype error = TypeError

text \<open>
  \<open>map[y]\<close> is \<open>undefined\<close> outside the array; \<open>map[y][x]\<close> raises when the row is
  \<open>undefined\<close> and is \<open>undefined\<close> when only the column is out of range.
\<close>

definition getRow :: "grid \<Rightarrow> int \<Rightarrow> tile list option" where
  "getRow m y = (if 0 \<le> y \<and> y < int (length m) then Some (m ! nat y) else None)"

definition getTile :: "grid \<Rightarrow> int \<Rightarrow> int \<Rightarrow> error + tile option" where
  "getTile m x y =
     (case getRow m y of
        None \<Rightarrow> Inl TypeError
      | Some row \<Rightarrow>
          Inr (if 0 \<le> x \<and> x < int (length row) then Some (row ! nat x) else None))"

definition inGrid :: "int \<Rightarrow> int \<Rightarrow> bool" where
  "inGrid x y \<longleftrightarrow> 0 \<le> x \<and> x < gridSize \<and> 0 \<le> y \<and> y < gridSize"

text \<open>A fully populated grid: \<open>gridSize\<close> rows of \<open>gridSize\<close> tiles each.\<close>

definition wf_map :: "grid \<Rightarrow> bool" where
  "wf_map m \<longleftrightarrow> int (length m) = gridSize \<and> list_all (\<lambda>row. int (length row) = gridSize) m"

section \<open>Coordinate conversion\<close>

text \<open>
  \<open>getRotatedCoords\<close> and \<open>getInverseRotatedCoords\<close> read the global \<open>rotation\<close>; it is
  the first argument here. The \<open>default\<close> branch of the \<open>switch\<close> is the identity.
\<close>

definition getRotatedCoords :: "int \<Rightarrow> int \<Rightarrow> int \<Rightarrow> int \<times> int" where
  "getRotatedCoords rotation x y =
     (if rotation = 0 then (x, y)
      else if rotation = 1 then (gridSize - 1 - y, x)
      else if rotation = 2 then (gridSize - 1 - x, gridSize - 1 - y)
      else if rotation = 3 then (y, gridSize - 1 - x)
      else (x, y))"

definition getInverseRotatedCoords :: "int \<Rightarrow> int \<Rightarrow> int \<Rightarrow> int \<times> int" where
  "getInverseRotatedCoords rotation x y =
     (if rotation = 0 then (x, y)
      else if rotation = 1 then (y, gridSize - 1 - x)
      else if rotation = 2 then (gridSize - 1 - x, gridSize - 1 - y)
      else if rotation = 3 then (gridSize - 1 - y, x)
      else (x, y))"

definition isoToScreen :: "int \<Rightarrow> int \<Rightarrow> real \<times> real" where
  "isoToScreen x y =
     (of_int (x - y) * (isoTileWidth / 2) + (canvas_width / 2) - (isoTileWidth / 2),
      of_int (x + y) * (isoTileHeight / 2))"

text \<open>
  JavaScript numbers are IEEE 754 doubles: an arithmetic operation returns its exact
  result rounded to a double. Above, the operands are loop indices and configuration
  constants, integers of at most four digits, and every result is such an integer, so
  nothing is rounded. Below, the operands depend on the pointer coordinates or on a tile
  height, and the model applies to the exact result of every single operation the
  rounding \<open>rnd\<close>, which it takes as a parameter. What is proved for every \<open>rnd\<close> holds
  for the rounding of the doubles. (Pointer coordinates come from mouse events and are
  finite, so no operation overflows.)

  \<open>const tileY = screenPos.y - tile.height * heightStep\<close>, for the candidate cell whose
  on-screen anchor is \<open>screenPos\<close> and whose tile is \<open>t\<close>.
\<close>

definition tileY :: "(real \<Rightarrow> real) \<Rightarrow> real \<times> real \<Rightarrow> tile \<Rightarrow> real" where
  "tileY rnd screenPos t = rnd (snd screenPos - rnd (of_int (height t) * heightStep))"

text \<open>
  The two tests of the loop body of \<open>screenToIso\<close> for one candidate cell: the
  bounding-box check and the diamond check. \<open>Math.abs\<close> and the comparisons are exact.
\<close>

definition inTileArea :: "(real \<Rightarrow> real) \<Rightarrow> real \<Rightarrow> real \<Rightarrow> real \<times> real \<Rightarrow> tile \<Rightarrow> bool" where
  "inTileArea rnd mouseX adjustedMouseY screenPos t =
     (mouseX \<ge> fst screenPos \<and>
      mouseX \<le> fst screenPos + isoTileWidth \<and>
      adjustedMouseY \<ge> rnd (tileY rnd screenPos t - isoTileHeight) \<and>
      adjustedMouseY \<le> rnd (tileY rnd screenPos t + isoTileHeight))"

definition inDiamond :: "(real \<Rightarrow> real) \<Rightarrow> real \<Rightarrow> real \<Rightarrow> real \<times> real \<Rightarrow> tile \<Rightarrow> bool" where
  "inDiamond rnd mouseX adjustedMouseY screenPos t =
     (let dx = rnd (mouseX - (fst screenPos + isoTileWidth / 2));
          dy = rnd (adjustedMouseY - tileY rnd screenPos t);
          transformedX = rnd (rnd (dx / (isoTileWidth / 2)) + rnd (dy / (isoTileHeight / 2)));
          transformedY = rnd (rnd (dy / (isoTileHeight / 2)) - rnd (dx / (isoTileWidth / 2)))
      in \<bar>transformedX\<bar> < 1 \<and> \<bar>transformedY\<bar> < 1)"

text \<open>
  The inner loop of \<open>screenToIso\<close> (over \<open>x\<close>, for a fixed view row \<open>y\<close>), from the
  current value of \<open>x\<close>. \<open>Inr None\<close>: the row ended with no match. Reading
  \<open>tile.height\<close> of a missing tile raises.
\<close>

function scanRow ::
  "(real \<Rightarrow> real) \<Rightarrow> grid \<Rightarrow> int \<Rightarrow> real \<Rightarrow> real \<Rightarrow> int \<Rightarrow> int \<Rightarrow> error + (int \<times> int) option" where
  "scanRow rnd m rotation mouseX adjustedMouseY y x =
     (if x < gridSize then
        (case getRotatedCoords rotation x y of
           (mapX, mapY) \<Rightarrow>
             (case getTile m mapX mapY of
                Inl e \<Rightarrow> Inl e
              | Inr None \<Rightarrow> Inl TypeError
              | Inr (Some t) \<Rightarrow>
                  (if inTileArea rnd mouseX adjustedMouseY (isoToScreen x y) t \<and>
                      inDiamond rnd mouseX adjustedMouseY (isoToScreen x y) t
                   then Inr (Some (mapX, mapY))
                   else scanRow rnd m rotation mouseX adjustedMouseY y (x + 1))))
      else Inr None)"
  by pat_completeness auto
termination
  by (relation "measure (\<lambda>(rnd, m, rotation, mouseX, adjustedMouseY, y, x). nat (gridSize - x))") auto

text \<open>The outer loop of \<open>screenToIso\<close> (over the view rows), from the current \<open>y\<close>.\<close>

function scanRows ::
  "(real \<Rightarrow> real) \<Rightarrow> grid \<Rightarrow> int \<Rightarrow> real \<Rightarrow> real \<Rightarrow> int \<Rightarrow> error + (int \<times> int) option" where
  "scanRows rnd m rotation mouseX adjustedMouseY y =
     (if y < gridSize then
        (case scanRow rnd m rotation mouseX adjustedMouseY y 0 of
           Inl e \<Rightarrow> Inl e
         | Inr (Some c) \<Rightarrow> Inr (Some c)
         | Inr None \<Rightarrow> scanRows rnd m rotation mouseX adjustedMouseY (y + 1))
      else Inr None)"
  by pat_completeness auto
termination
  by (relation "measure (\<lambda>(rnd, m, rotation, mouseX, adjustedMouseY, y). nat (gridSize - y))") auto

text \<open>\<open>screenToIso\<close>: \<open>adjustedMouseY = mouseY - 100\<close>, then the scan from the first row.\<close>

definition screenToIso ::
  "(real \<Rightarrow> real) \<Rightarrow> grid \<Rightarrow> int \<Rightarrow> real \<Rightarrow> real \<Rightarrow> error + (int \<times> int) option" where
  "screenToIso rnd m rotation mouseX mouseY = scanRows rnd m rotation mouseX (rnd (mouseY - 100)) 0"

section \<open>Map generation\<close>

text \<open>
  \<open>Math.floor(Math.random() * 2) + 1\<close> for an outcome \<open>u\<close> of \<open>Math.random()\<close>
  (doubling is exact). \<open>rnd k\<close> is the outcome of the \<open>k\<close>-th call; the fill loops call
  it once per cell, row by row.
\<close>

definition randomHeight :: "real \<Rightarrow> int" where
  "randomHeight u = \<lfloor>u * 2\<rfloor> + 1"

definition fillMap :: "(nat \<Rightarrow> real) \<Rightarrow> grid" where
  "fillMap rnd =
     map (\<lambda>y. map (\<lambda>x. \<lparr>ttype = GRASS, height = randomHeight (rnd (y * nat gridSize + x))\<rparr>)
                  [0..<nat gridSize])
         [0..<nat gridSize]"

text \<open>\<open>map[y][x] = t\<close> for a cell that exists.\<close>

definition setTile :: "grid \<Rightarrow> int \<Rightarrow> int \<Rightarrow> tile \<Rightarrow> grid" where
  "setTile m x y t = m[nat y := (m ! nat y)[nat x := t]]"

text \<open>
  The body of the lake loops for offsets \<open>(i, j)\<close>: \<open>map[lakeY+i] && map[lakeY+i][lakeX+j]\<close>
  is truthy exactly when the cell exists. \<open>lakeX = lakeY = Math.floor(gridSize / 2)\<close>.
\<close>

definition lakeCell :: "grid \<Rightarrow> int \<times> int \<Rightarrow> grid" where
  "lakeCell m ij =
     (case ij of (i, j) \<Rightarrow>
        (let lakeY = gridSize div 2; lakeX = gridSize div 2
         in if \<bar>i\<bar> + \<bar>j\<bar> < 3 \<and> getTile m (lakeX + j) (lakeY + i) \<notin> {Inl TypeError, Inr None}
            then setTile m (lakeX + j) (lakeY + i) \<lparr>ttype = WATER, height = 0\<rparr>
            else m))"

definition generateMap :: "(nat \<Rightarrow> real) \<Rightarrow> grid" where
  "generateMap rnd =
     foldl lakeCell (fillMap rnd) (concat (map (\<lambda>i. map (\<lambda>j. (i, j)) [-2..2]) [-2..2]))"

section \<open>Terrain mutation\<close>

text \<open>
  \<open>getNeighbors\<close>: the four directions in their fixed order, off-grid candidates dropped.
\<close>

definition directions :: "(int \<times> int) list" where
  "directions = [(-1, 0), (1, 0), (0, -1), (0, 1)]"

definition getNeighbors :: "int \<Rightarrow> int \<Rightarrow> (int \<times> int) list" where
  "getNeighbors x y =
     filter (\<lambda>(newX, newY). newX \<ge> 0 \<and> newX < gridSize \<and> newY \<ge> 0 \<and> newY < gridSize)
            (map (\<lambda>(dx, dy). (x + dx, y + dy)) directions)"

text \<open>
  The body of the inner \<open>forEach\<close> of \<open>updateMap\<close> for the object \<open>obj\<close>, whose own tile
  \<open>map[obj.y][obj.x]\<close> was read as \<open>tile\<close> (possibly \<open>undefined\<close>), and one neighbor \<open>n\<close>.
  An object has one effect, so at most one of the four \<open>if\<close>s fires; each reads a field
  of the neighbor tile first, and \<open>tile.height\<close> only where the JavaScript evaluates it.
\<close>

definition neighborChange ::
  "grid \<Rightarrow> placed_object \<Rightarrow> tile option \<Rightarrow> int \<times> int \<Rightarrow> error + change list" where
  "neighborChange m obj tile n =
     (case n of (nx, ny) \<Rightarrow>
        (case getTile m nx ny of
           Inl e \<Rightarrow> Inl e
         | Inr None \<Rightarrow> Inl TypeError
         | Inr (Some neighborTile) \<Rightarrow>
             (case obj_effect obj of
                raise_terrain \<Rightarrow>
                  (case tile of
                     None \<Rightarrow> Inl TypeError
                   | Some t \<Rightarrow>
                       Inr (if height neighborTile < height t + 2
                            then [\<lparr>ch_x = nx, ch_y = ny, ch_type = None,
                                   ch_height = Some (height neighborTile + 1)\<rparr>]
                            else []))
              | lower_terrain \<Rightarrow>
                  Inr (if height neighborTile > 0
                       then [\<lparr>ch_x = nx, ch_y = ny, ch_type = None,
                              ch_height = Some (height neighborTile - 1)\<rparr>]
                       else [])
              | raise_water \<Rightarrow>
                  (if ttype neighborTile \<noteq> WATER
                   then (case tile of
                           None \<Rightarrow> Inl TypeError
                         | Some t \<Rightarrow>
                             Inr [\<lparr>ch_x = nx, ch_y = ny, ch_type = Some WATER,
                                   ch_height = Some (height t)\<rparr>])
                   else Inr [])
              | spread_grass \<Rightarrow>
                  Inr (if ttype neighborTile \<noteq> GRASS
                       then [\<lparr>ch_x = nx, ch_y = ny, ch_type = Some GRASS, ch_height = None\<rparr>]
                       else []))))"

text \<open>The inner \<open>forEach\<close> over the neighbors, pushing onto \<open>changes\<close> in order.\<close>

fun neighborsChanges ::
  "grid \<Rightarrow> placed_object \<Rightarrow> tile option \<Rightarrow> (int \<times> int) list \<Rightarrow> error + change list" where
  "neighborsChanges m obj tile [] = Inr []"
| "neighborsChanges m obj tile (n # ns) =
     (case neighborChange m obj tile n of
        Inl e \<Rightarrow> Inl e
      | Inr cs \<Rightarrow>
          (case neighborsChanges m obj tile ns of
             Inl e \<Rightarrow> Inl e
           | Inr cs' \<Rightarrow> Inr (cs @ cs')))"

text \<open>One iteration of the outer \<open>forEach\<close>: the object's own tile, then its neighbors.\<close>

definition objectChanges :: "grid \<Rightarrow> placed_object \<Rightarrow> error + change list" where
  "objectChanges m obj =
     (case getTile m (obj_x obj) (obj_y obj) of
        Inl e \<Rightarrow> Inl e
      | Inr tile \<Rightarrow> neighborsChanges m obj tile (getNeighbors (obj_x obj) (obj_y obj)))"

text \<open>The outer \<open>forEach\<close>: the whole \<open>changes\<close> array, every entry computed from \<open>m\<close>.\<close>

fun collectChanges :: "grid \<Rightarrow> placed_object list \<Rightarrow> error + change list" where
  "collectChanges m [] = Inr []"
| "collectChanges m (obj # objs) =
     (case objectChanges m obj of
        Inl e \<Rightarrow> Inl e
      | Inr cs \<Rightarrow>
          (case collectChanges m objs of
             Inl e \<Rightarrow> Inl e
           | Inr cs' \<Rightarrow> Inr (cs @ cs')))"

text \<open>
  The two assignments of the second \<open>forEach\<close>, on the tile they mutate: \<open>height\<close> first,
  then \<open>type\<close>, each only when the change carries the field.
\<close>

definition changeTile :: "change \<Rightarrow> tile \<Rightarrow> tile" where
  "changeTile c t =
     (let t1 = (case ch_height c of None \<Rightarrow> t | Some h \<Rightarrow> t\<lparr>height := h\<rparr>)
      in (case ch_type c of None \<Rightarrow> t1 | Some ty \<Rightarrow> t1\<lparr>ttype := ty\<rparr>))"

text \<open>
  Applying one change. The tiles of the map are separate objects (every cell is
  assigned a fresh object literal by \<open>generateMap\<close>), so the in-place mutation of
  \<open>map[c.y][c.x]\<close> is an update of that one cell. The cell is only looked up when the
  change carries a field; assigning to a field of a missing tile raises.
\<close>

definition applyChange :: "grid \<Rightarrow> change \<Rightarrow> error + grid" where
  "applyChange m c =
     (if ch_height c = None \<and> ch_type c = None then Inr m
      else (case getTile m (ch_x c) (ch_y c) of
              Inl e \<Rightarrow> Inl e
            | Inr None \<Rightarrow> Inl TypeError
            | Inr (Some t) \<Rightarrow> Inr (setTile m (ch_x c) (ch_y c) (changeTile c t))))"

fun applyChanges :: "grid \<Rightarrow> change list \<Rightarrow> error + grid" where
  "applyChanges m [] = Inr m"
| "applyChanges m (c # cs) =
     (case applyChange m c of
        Inl e \<Rightarrow> Inl e
      | Inr m' \<Rightarrow> applyChanges m' cs)"

text \<open>One tick: \<open>updateMap\<close> on the object list and the map.\<close>

definition updateMap :: "placed_object list \<Rightarrow> grid \<Rightarrow> error + grid" where
  "updateMap objects m =
     (case collectChanges m objects of
        Inl e \<Rightarrow> Inl e
      | Inr changes \<Rightarrow> applyChanges m changes)"

text \<open>\<open>n\<close> successive ticks of the game loop with a fixed object list.\<close>

fun ticks :: "nat \<Rightarrow> placed_object list \<Rightarrow> grid \<Rightarrow> error + grid" where
  "ticks 0 objects m = Inr m"
| "ticks (Suc n) objects m =
     (case updateMap objects m of
        Inl e \<Rightarrow> Inl e
      | Inr m' \<Rightarrow> ticks n objects m')"

section \<open>Object placement\<close>

text \<open>
  \<open>handleCanvasClick\<close> reads \<open>selectedTool\<close>, \<open>hoveredTile\<close> and \<open>objects\<close>; it returns
  the notification it shows, if any, and the object list afterwards.
  \<open>NoToolSelected\<close> stands for the message "Select a tool first!" and \<open>AlreadyOccupied\<close>
  for "There's already an object here!".
\<close>

datatype notification = NoToolSelected | AlreadyOccupied

definition handleCanvasClick ::
  "object_type option \<Rightarrow> (int \<times> int) option \<Rightarrow> placed_object list
     \<Rightarrow> notification option \<times> placed_object list" where
  "handleCanvasClick selectedTool hoveredTile objects =
     (case selectedTool of
        None \<Rightarrow> (Some NoToolSelected, objects)
      | Some tool \<Rightarrow>
          (case hoveredTile of
             None \<Rightarrow> (None, objects)
           | Some (x, y) \<Rightarrow>
               (case find (\<lambda>obj. obj_x obj = x \<and> obj_y obj = y) objects of
                  Some existingObject \<Rightarrow> (Some AlreadyOccupied, objects)
                | None \<Rightarrow>
                    (None, objects @ [\<lparr>obj_x = x, obj_y = y, obj_type = tool,
                                       obj_effect = OBJECT_TYPES_effect tool\<rparr>]))))"

text \<open>
  A session of clicks: before each click the tool selection and the hovered tile have
  whatever values the other handlers gave them.
\<close>

fun clicks :: "(object_type option \<times> (int \<times> int) option) list \<Rightarrow> placed_object list
                 \<Rightarrow> placed_object list" where
  "clicks [] objects = objects"
| "clicks ((selectedTool, hoveredTile) # rest) objects =
     clicks rest (snd (handleCanvasClick selectedTool hoveredTile objects))"

section \<open>Notions used to state the properties\<close>

text \<open>The tile of a cell that exists: \<open>map[y][x]\<close> for \<open>(x, y)\<close> inside a populated grid.\<close>

definition tileAt :: "grid \<Rightarrow> int \<Rightarrow> int \<Rightarrow> tile" where
  "tileAt m x y = m ! nat y ! nat x"

text \<open>Every stored height is a non-negative integer.\<close>

definition heights_nonneg :: "grid \<Rightarrow> bool" where
  "heights_nonneg m \<longleftrightarrow> list_all (list_all (\<lambda>t. 0 \<le> height t)) m"

text \<open>The tile observed at \<open>(x, y)\<close> after one tick.\<close>

definition tileAfterTick :: "placed_object list \<Rightarrow> grid \<Rightarrow> int \<Rightarrow> int \<Rightarrow> error + tile option" where
  "tileAfterTick objects m x y =
     (case updateMap objects m of Inl e \<Rightarrow> Inl e | Inr m' \<Rightarrow> getTile m' x y)"

text \<open>
  The \<open>height\<close> (respectively \<open>type\<close>) carried by the last entry of a \<open>changes\<close> array
  that targets the cell \<open>(x, y)\<close> and carries that field, if there is one.
\<close>

definition lastHeight :: "change list \<Rightarrow> int \<Rightarrow> int \<Rightarrow> int option" where
  "lastHeight cs x y =
     (case filter (\<lambda>c. ch_x c = x \<and> ch_y c = y \<and> ch_height c \<noteq> None) cs of
        [] \<Rightarrow> None
      | c # fs \<Rightarrow> ch_height (last (c # fs)))"

definition lastType :: "change list \<Rightarrow> int \<Rightarrow> int \<Rightarrow> tile_type option" where
  "lastType cs x y =
     (case filter (\<lambda>c. ch_x c = x \<and> ch_y c = y \<and> ch_type c \<noteq> None) cs of
        [] \<Rightarrow> None
      | c # fs \<Rightarrow> ch_type (last (c # fs)))"

text \<open>
  The reading "the last change that targets the cell determines its value after the tick":
  the tile after the tick is the tile before the tick with that one change applied to it
  (and is unchanged when no change targets the cell).
\<close>

definition lastDeltaWins :: "placed_object list \<Rightarrow> grid \<Rightarrow> int \<Rightarrow> int \<Rightarrow> bool" where
  "lastDeltaWins objects m x y \<longleftrightarrow>
     (case collectChanges m objects of
        Inl e \<Rightarrow> False
      | Inr cs \<Rightarrow>
          (case filter (\<lambda>c. ch_x c = x \<and> ch_y c = y) cs of
             [] \<Rightarrow> tileAfterTick objects m x y = getTile m x y
           | c # fs \<Rightarrow>
               tileAfterTick objects m x y = Inr (Some (changeTile (last (c # fs)) (tileAt m x y)))))"

text \<open>
  Some object of the list stands on the cell \<open>(x, y)\<close>; the cells of the objects of a
  list, in order.
\<close>

definition occupied :: "placed_object list \<Rightarrow> int \<Rightarrow> int \<Rightarrow> bool" where
  "occupied objects x y \<longleftrightarrow> list_ex (\<lambda>obj. obj_x obj = x \<and> obj_y obj = y) objects"

definition positions :: "placed_object list \<Rightarrow> (int \<times> int) list" where
  "positions objects = map (\<lambda>obj. (obj_x obj, obj_y obj)) objects"

text \<open>
  The condition under which the loop body of \<open>screenToIso\<close> returns for the view cell
  \<open>(x, y)\<close> of a populated map: both tests pass for the tile shown there.
\<close>

definition candidateHit ::
  "(real \<Rightarrow> real) \<Rightarrow> grid \<Rightarrow> int \<Rightarrow> real \<Rightarrow> real \<Rightarrow> int \<Rightarrow> int \<Rightarrow> bool" where
  "candidateHit rnd m rotation mouseX adjustedMouseY x y =
     (case getRotatedCoords rotation x y of
        (mapX, mapY) \<Rightarrow>
          inTileArea rnd mouseX adjustedMouseY (isoToScreen x y) (tileAt m mapX mapY) \<and>
          inDiamond rnd mouseX adjustedMouseY (isoToScreen x y) (tileAt m mapX mapY))"

text \<open>
  The canvas point at the center of the top face that \<open>drawTile\<close> paints for the view cell
  \<open>(x, y)\<close> showing the tile \<open>t\<close>: the diamond has its left corner at
  \<open>(screenPos.x, tileY)\<close> and its right corner \<open>isoTileWidth\<close> further, and \<open>draw\<close> shifts
  everything down by 100 pixels (the offset that \<open>screenToIso\<close> subtracts again).
\<close>

definition topFaceCenter :: "int \<Rightarrow> int \<Rightarrow> tile \<Rightarrow> real \<times> real" where
  "topFaceCenter x y t =
     (let screenPos = isoToScreen x y
      in (fst screenPos + isoTileWidth / 2, snd screenPos - of_int (height t) * heightStep + 100))"

text \<open>
  A property of the rounding of the doubles: an integer of magnitude at most \<open>2 ^ 53\<close> is
  a double, so an operation whose exact result is such an integer returns it.
\<close>

definition exactOnIntegers :: "(real \<Rightarrow> real) \<Rightarrow> bool" where
  "exactOnIntegers rnd \<longleftrightarrow> (\<forall>k::int. \<bar>k\<bar> \<le> 2 ^ 53 \<longrightarrow> rnd (of_int k) = of_int k)"

subsection \<open>Example states\<close>

text \<open>A run in which every call of \<open>Math.random()\<close> returns one half.\<close>

definition alwaysHalf :: "nat \<Rightarrow> real" where
  "alwaysHalf k = 1 / 2"

text \<open>
  Two maps, every tile grass of height 1 and every tile water of height 1, and three
  object lists.
\<close>

definition flatMap :: grid where
  "flatMap = replicate 16 (replicate 16 \<lparr>ttype = GRASS, height = 1\<rparr>)"

definition waterMap :: grid where
  "waterMap = replicate 16 (replicate 16 \<lparr>ttype = WATER, height = 1\<rparr>)"

definition obeliskAndTree :: "placed_object list" where
  "obeliskAndTree =
     [\<lparr>obj_x = 5, obj_y = 5, obj_type = obelisk, obj_effect = raise_terrain\<rparr>,
      \<lparr>obj_x = 7, obj_y = 5, obj_type = tree, obj_effect = spread_grass\<rparr>]"

definition obeliskAndExcavator :: "placed_object list" where
  "obeliskAndExcavator =
     [\<lparr>obj_x = 5, obj_y = 5, obj_type = obelisk, obj_effect = raise_terrain\<rparr>,
      \<lparr>obj_x = 6, obj_y = 6, obj_type = excavator, obj_effect = lower_terrain\<rparr>]"

definition treeAt33 :: "placed_object list" where
  "treeAt33 = [\<lparr>obj_x = 3, obj_y = 3, obj_type = tree, obj_effect = spread_grass\<rparr>]"

section \<open>Rotation round trip\<close>

lemma getRotatedCoords_inGrid:
  "inGrid x y \<Longrightarrow> inGrid (fst (getRotatedCoords r x y)) (snd (getRotatedCoords r x y))"
  by (auto simp: inGrid_def getRotatedCoords_def)

text \<open>
  Claim C1. For every grid point \<open>(x, y)\<close> with both coordinates in \<open>[0, 16)\<close> and every
  rotation value \<open>r\<close> in \<open>{0, 1, 2, 3}\<close>, un-rotating the rotated point (both under
  rotation \<open>r\<close>) gives back exactly \<open>(x, y)\<close>.
\<close>

theorem rotation_round_trip:
  assumes "0 \<le> x" "x < 16" "0 \<le> y" "y < 16" "r \<in> {0, 1, 2, 3}"
  shows "(case getRotatedCoords r x y of (x', y') \<Rightarrow> getInverseRotatedCoords r x' y') = (x, y)"
  using assms by (auto simp: getRotatedCoords_def getInverseRotatedCoords_def)

theorem rotation_round_trip_witness:
  "(0::int) \<le> 3 \<and> (3::int) < 16 \<and> (0::int) \<le> 11 \<and> (11::int) < 16 \<and> (1::int) \<in> {0, 1, 2, 3}
   \<and> getRotatedCoords 1 3 11 = (4, 3)
   \<and> (case getRotatedCoords 1 3 11 of (x', y') \<Rightarrow> getInverseRotatedCoords 1 x' y') = (3, 11)"
  using rotation_round_trip [of 3 11 1]
  by (simp add: getRotatedCoords_def gridSize_def)

section \<open>Basic facts about the grid and one tick\<close>

lemma getRow_wf: "wf_map m \<Longrightarrow> 0 \<le> y \<Longrightarrow> y < gridSize \<Longrightarrow> getRow m y = Some (m ! nat y)"
  by (simp add: wf_map_def getRow_def)

lemma length_row_wf: "wf_map m \<Longrightarrow> 0 \<le> y \<Longrightarrow> y < gridSize \<Longrightarrow> int (length (m ! nat y)) = gridSize"
proof -
  assume a: "wf_map m" "0 \<le> y" "y < gridSize"
  then have "nat y < length m" unfolding wf_map_def by linarith
  with a(1) show ?thesis by (simp add: wf_map_def list_all_length)
qed

lemma getTile_wf:
  "wf_map m \<Longrightarrow> inGrid x y \<Longrightarrow> getTile m x y = Inr (Some (m ! nat y ! nat x))"
  by (simp add: getTile_def getRow_wf length_row_wf inGrid_def)

lemma wf_map_setTile: "wf_map m \<Longrightarrow> wf_map (setTile m x y t)"
proof -
  assume a: "wf_map m"
  have "int (length (setTile m x y t ! n)) = gridSize" if "n < length m" for n
    using a that by (cases "n = nat y") (simp_all add: wf_map_def setTile_def list_all_length)
  with a show ?thesis by (simp add: wf_map_def list_all_length setTile_def)
qed

lemma getTile_setTile:
  assumes "wf_map m" "inGrid x y" "inGrid x' y'"
  shows "getTile (setTile m x y t) x' y' = (if x' = x \<and> y' = y then Inr (Some t) else getTile m x' y')"
proof -
  have l: "nat y < length m" "nat x < length (m ! nat y)"
    using assms(1,2) length_row_wf[of m y] by (auto simp: wf_map_def inGrid_def)
  have "getTile (setTile m x y t) x' y' = Inr (Some (setTile m x y t ! nat y' ! nat x'))"
    using assms by (simp add: getTile_wf wf_map_setTile)
  moreover have "setTile m x y t ! nat y' ! nat x' = (if x' = x \<and> y' = y then t else m ! nat y' ! nat x')"
    using l assms(2,3) by (auto simp: setTile_def nth_list_update inGrid_def)
  ultimately show ?thesis using assms by (simp add: getTile_wf)
qed

lemma abs_sum_one:
  "\<bar>a\<bar> + \<bar>b\<bar> = 1 \<longleftrightarrow> (a = -1 \<and> b = 0) \<or> (a = 1 \<and> b = 0) \<or> (a = 0 \<and> b = -1) \<or> (a = 0 \<and> b = 1)"
  for a b :: int
  by presburger

lemma getNeighbors_unfold:
  "getNeighbors x y = filter (\<lambda>(a, b). inGrid a b) [(x - 1, y), (x + 1, y), (x, y - 1), (x, y + 1)]"
  by (simp add: getNeighbors_def directions_def inGrid_def)

lemma mem_getNeighbors:
  "(a, b) \<in> set (getNeighbors x y) \<longleftrightarrow> \<bar>a - x\<bar> + \<bar>b - y\<bar> = 1 \<and> inGrid a b"
proof -
  have "(a, b) \<in> set (getNeighbors x y) \<longleftrightarrow>
        inGrid a b \<and> (a, b) \<in> {(x - 1, y), (x + 1, y), (x, y - 1), (x, y + 1)}"
    unfolding getNeighbors_unfold set_filter by (simp only: list.set mem_Collect_eq prod.case) blast
  also have "(a, b) \<in> {(x - 1, y), (x + 1, y), (x, y - 1), (x, y + 1)} \<longleftrightarrow>
     (a - x = -1 \<and> b - y = 0) \<or> (a - x = 1 \<and> b - y = 0) \<or> (a - x = 0 \<and> b - y = -1) \<or> (a - x = 0 \<and> b - y = 1)"
    by (simp; linarith)
  finally show ?thesis unfolding abs_sum_one by blast
qed

lemma distinct_getNeighbors: "distinct (getNeighbors x y)"
  unfolding getNeighbors_unfold by (rule distinct_filter) simp

lemma neighborChange_target:
  "neighborChange m obj tile (nx, ny) = Inr cs \<Longrightarrow> c \<in> set cs \<Longrightarrow> ch_x c = nx \<and> ch_y c = ny"
  by (auto simp: neighborChange_def split: sum.splits option.splits effect.splits if_splits)

lemma neighborChange_total:
  "wf_map m \<Longrightarrow> inGrid nx ny \<Longrightarrow> \<exists>cs. neighborChange m obj (Some t) (nx, ny) = Inr cs"
  by (simp add: neighborChange_def getTile_wf split: effect.splits)

lemma neighborsChanges_mem:
  "neighborsChanges m obj tile ns = Inr cs \<Longrightarrow> c \<in> set cs \<Longrightarrow>
   \<exists>n \<in> set ns. \<exists>cs'. neighborChange m obj tile n = Inr cs' \<and> c \<in> set cs'"
proof (induction ns arbitrary: cs)
  case Nil
  then show ?case by simp
next
  case (Cons n ns)
  from Cons.prems(1) obtain c1 c2 where
    h: "neighborChange m obj tile n = Inr c1" "neighborsChanges m obj tile ns = Inr c2" "cs = c1 @ c2"
    by (auto split: sum.splits)
  with Cons.prems(2) have "c \<in> set c1 \<or> c \<in> set c2" by simp
  then show ?case
  proof
    assume "c \<in> set c1"
    with h(1) show ?thesis by auto
  next
    assume "c \<in> set c2"
    from Cons.IH[OF h(2) this] show ?thesis by auto
  qed
qed

lemma neighborsChanges_total:
  "(\<And>n. n \<in> set ns \<Longrightarrow> \<exists>cs. neighborChange m obj tile n = Inr cs) \<Longrightarrow>
   \<exists>cs. neighborsChanges m obj tile ns = Inr cs"
proof (induction ns)
  case Nil
  then show ?case by simp
next
  case (Cons n ns)
  obtain c1 where "neighborChange m obj tile n = Inr c1" using Cons.prems[of n] by auto
  moreover obtain c2 where "neighborsChanges m obj tile ns = Inr c2" using Cons by auto
  ultimately show ?case by simp
qed

lemma objectChanges_total:
  assumes "wf_map m" "inGrid (obj_x obj) (obj_y obj)"
  shows "\<exists>cs. objectChanges m obj = Inr cs"
proof -
  have "\<exists>cs. neighborChange m obj (Some t) n = Inr cs"
    if "n \<in> set (getNeighbors (obj_x obj) (obj_y obj))" for n t
    using that assms(1) neighborChange_total[of m "fst n" "snd n" obj t] mem_getNeighbors[of "fst n" "snd n"]
    by simp
  then show ?thesis
    using assms by (simp add: objectChanges_def getTile_wf neighborsChanges_total)
qed

lemma objectChanges_mem:
  assumes "wf_map m" "inGrid (obj_x obj) (obj_y obj)" "objectChanges m obj = Inr cs" "c \<in> set cs"
  shows "\<exists>nx ny cs'. (nx, ny) \<in> set (getNeighbors (obj_x obj) (obj_y obj)) \<and>
           neighborChange m obj (Some (m ! nat (obj_y obj) ! nat (obj_x obj))) (nx, ny) = Inr cs' \<and> c \<in> set cs'"
proof -
  from assms(1-3) have "neighborsChanges m obj (Some (m ! nat (obj_y obj) ! nat (obj_x obj)))
      (getNeighbors (obj_x obj) (obj_y obj)) = Inr cs"
    by (simp add: objectChanges_def getTile_wf)
  from neighborsChanges_mem[OF this assms(4)] show ?thesis by (metis surj_pair)
qed

lemma collectChanges_mem:
  "collectChanges m objs = Inr cs \<Longrightarrow> c \<in> set cs \<Longrightarrow>
   \<exists>obj \<in> set objs. \<exists>cs'. objectChanges m obj = Inr cs' \<and> c \<in> set cs'"
proof (induction objs arbitrary: cs)
  case Nil
  then show ?case by simp
next
  case (Cons obj objs)
  from Cons.prems(1) obtain c1 c2 where
    h: "objectChanges m obj = Inr c1" "collectChanges m objs = Inr c2" "cs = c1 @ c2"
    by (auto split: sum.splits)
  with Cons.prems(2) have "c \<in> set c1 \<or> c \<in> set c2" by simp
  then show ?case
  proof
    assume "c \<in> set c1"
    with h(1) show ?thesis by auto
  next
    assume "c \<in> set c2"
    from Cons.IH[OF h(2) this] show ?thesis by auto
  qed
qed

lemma collectChanges_total:
  "wf_map m \<Longrightarrow> (\<And>obj. obj \<in> set objs \<Longrightarrow> inGrid (obj_x obj) (obj_y obj)) \<Longrightarrow>
   \<exists>cs. collectChanges m objs = Inr cs"
proof (induction objs)
  case Nil
  then show ?case by simp
next
  case (Cons obj objs)
  obtain c1 where "objectChanges m obj = Inr c1"
    using objectChanges_total[of m obj] Cons.prems by auto
  moreover obtain c2 where "collectChanges m objs = Inr c2" using Cons by auto
  ultimately show ?case by simp
qed

lemma collectChanges_append:
  "collectChanges m (os1 @ os2) =
     (case collectChanges m os1 of Inl e \<Rightarrow> Inl e
      | Inr cs1 \<Rightarrow> (case collectChanges m os2 of Inl e \<Rightarrow> Inl e | Inr cs2 \<Rightarrow> Inr (cs1 @ cs2)))"
  by (induction os1) (auto split: sum.splits)

lemma collected_inGrid:
  assumes "wf_map m" "\<And>obj. obj \<in> set objs \<Longrightarrow> inGrid (obj_x obj) (obj_y obj)"
    "collectChanges m objs = Inr cs" "c \<in> set cs"
  shows "inGrid (ch_x c) (ch_y c)"
proof -
  from collectChanges_mem[OF assms(3,4)] obtain obj cs' where
    o: "obj \<in> set objs" "objectChanges m obj = Inr cs'" "c \<in> set cs'" by auto
  from objectChanges_mem[OF assms(1) assms(2)[OF o(1)] o(2,3)] obtain nx ny cs2 where
    n: "(nx, ny) \<in> set (getNeighbors (obj_x obj) (obj_y obj))"
       "neighborChange m obj (Some (m ! nat (obj_y obj) ! nat (obj_x obj))) (nx, ny) = Inr cs2" "c \<in> set cs2"
    by auto
  from neighborChange_target[OF n(2,3)] n(1) show ?thesis by (simp add: mem_getNeighbors)
qed

lemma getTile_tileAt: "wf_map m \<Longrightarrow> inGrid x y \<Longrightarrow> getTile m x y = Inr (Some (tileAt m x y))"
  by (simp add: getTile_wf tileAt_def)

lemma tileAt_setTile:
  "wf_map m \<Longrightarrow> inGrid x y \<Longrightarrow> inGrid x' y' \<Longrightarrow>
   tileAt (setTile m x y t) x' y' = (if x' = x \<and> y' = y then t else tileAt m x' y')"
  using getTile_setTile[of m x y x' y' t] getTile_tileAt[of "setTile m x y t" x' y']
    getTile_tileAt[of m x' y'] wf_map_setTile[of m x y t]
  by (cases "x' = x \<and> y' = y") auto

lemma applyChange_wf:
  assumes "wf_map m" "inGrid (ch_x c) (ch_y c)"
  shows "\<exists>m'. applyChange m c = Inr m' \<and> wf_map m' \<and>
           (\<forall>x y. inGrid x y \<longrightarrow>
              tileAt m' x y = (if ch_x c = x \<and> ch_y c = y then changeTile c (tileAt m x y) else tileAt m x y))"
proof (cases "ch_height c = None \<and> ch_type c = None")
  case True
  then have "changeTile c t = t" for t by (simp add: changeTile_def)
  with True assms show ?thesis by (simp add: applyChange_def)
next
  case False
  with assms have "applyChange m c = Inr (setTile m (ch_x c) (ch_y c) (changeTile c (tileAt m (ch_x c) (ch_y c))))"
    by (auto simp: applyChange_def getTile_tileAt)
  with assms show ?thesis by (auto simp: wf_map_setTile tileAt_setTile)
qed

lemma applyChanges_wf:
  "wf_map m \<Longrightarrow> (\<And>c. c \<in> set cs \<Longrightarrow> inGrid (ch_x c) (ch_y c)) \<Longrightarrow>
   \<exists>m'. applyChanges m cs = Inr m' \<and> wf_map m' \<and>
     (\<forall>x y. inGrid x y \<longrightarrow>
        tileAt m' x y = foldl (\<lambda>t c. if ch_x c = x \<and> ch_y c = y then changeTile c t else t) (tileAt m x y) cs)"
proof (induction cs arbitrary: m)
  case Nil
  then show ?case by simp
next
  case (Cons c cs)
  from applyChange_wf[of m c] Cons.prems obtain m1 where
    m1: "applyChange m c = Inr m1" "wf_map m1"
      "\<And>x y. inGrid x y \<Longrightarrow> tileAt m1 x y = (if ch_x c = x \<and> ch_y c = y then changeTile c (tileAt m x y) else tileAt m x y)"
    by auto
  from Cons.IH[OF m1(2)] Cons.prems(2) obtain m' where
    m': "applyChanges m1 cs = Inr m'" "wf_map m'"
      "\<And>x y. inGrid x y \<Longrightarrow> tileAt m' x y = foldl (\<lambda>t c. if ch_x c = x \<and> ch_y c = y then changeTile c t else t) (tileAt m1 x y) cs"
    by auto
  show ?case using m1 m' by simp
qed

lemma foldl_height:
  "height (foldl (\<lambda>t c. if ch_x c = x \<and> ch_y c = y then changeTile c t else t) t cs) =
     (case lastHeight cs x y of None \<Rightarrow> height t | Some h \<Rightarrow> h)"
proof (induction cs rule: rev_induct)
  case Nil
  then show ?case by (simp add: lastHeight_def)
next
  case (snoc c cs)
  then show ?case
    by (auto simp: lastHeight_def changeTile_def Let_def split: list.splits option.splits)
qed

lemma foldl_ttype:
  "ttype (foldl (\<lambda>t c. if ch_x c = x \<and> ch_y c = y then changeTile c t else t) t cs) =
     (case lastType cs x y of None \<Rightarrow> ttype t | Some ty \<Rightarrow> ty)"
proof (induction cs rule: rev_induct)
  case Nil
  then show ?case by (simp add: lastType_def)
next
  case (snoc c cs)
  then show ?case
    by (auto simp: lastType_def changeTile_def Let_def split: list.splits option.splits)
qed

lemma wf_flatMap: "wf_map flatMap"
  by (simp add: wf_map_def flatMap_def gridSize_def list_all_iff)

lemma tileAt_flatMap: "inGrid x y \<Longrightarrow> tileAt flatMap x y = \<lparr>ttype = GRASS, height = 1\<rparr>"
proof -
  assume "inGrid x y"
  then have "nat y < 16" "nat x < 16" unfolding inGrid_def gridSize_def by linarith+
  then show ?thesis by (simp add: tileAt_def flatMap_def)
qed

lemma neighborChange_props:
  assumes "wf_map m" "inGrid nx ny" "neighborChange m obj (Some t) (nx, ny) = Inr cs" "c \<in> set cs"
  shows "ch_x c = nx \<and> ch_y c = ny \<and>
    (case obj_effect obj of
       raise_terrain \<Rightarrow> ch_type c = None \<and> ch_height c = Some (height (tileAt m nx ny) + 1) \<and>
                          height (tileAt m nx ny) + 1 \<le> height t + 2
     | lower_terrain \<Rightarrow> ch_type c = None \<and> ch_height c = Some (height (tileAt m nx ny) - 1) \<and>
                          0 \<le> height (tileAt m nx ny) - 1
     | raise_water \<Rightarrow> ch_type c = Some WATER \<and> ch_height c = Some (height t)
     | spread_grass \<Rightarrow> ch_type c = Some GRASS \<and> ch_height c = None)"
  using assms(3,4) getTile_tileAt[OF assms(1,2)]
  by (auto simp: neighborChange_def split: effect.splits if_splits)

lemma change_origin:
  assumes "wf_map m" "\<And>obj. obj \<in> set objs \<Longrightarrow> inGrid (obj_x obj) (obj_y obj)"
    "collectChanges m objs = Inr cs" "c \<in> set cs"
  shows "\<exists>obj \<in> set objs. \<exists>cs'. objectChanges m obj = Inr cs' \<and> c \<in> set cs' \<and>
    (ch_x c, ch_y c) \<in> set (getNeighbors (obj_x obj) (obj_y obj)) \<and>
    (case obj_effect obj of
       raise_terrain \<Rightarrow> ch_type c = None \<and> ch_height c = Some (height (tileAt m (ch_x c) (ch_y c)) + 1) \<and>
                          height (tileAt m (ch_x c) (ch_y c)) + 1 \<le> height (tileAt m (obj_x obj) (obj_y obj)) + 2
     | lower_terrain \<Rightarrow> ch_type c = None \<and> ch_height c = Some (height (tileAt m (ch_x c) (ch_y c)) - 1) \<and>
                          0 \<le> height (tileAt m (ch_x c) (ch_y c)) - 1
     | raise_water \<Rightarrow> ch_type c = Some WATER \<and> ch_height c = Some (height (tileAt m (obj_x obj) (obj_y obj)))
     | spread_grass \<Rightarrow> ch_type c = Some GRASS \<and> ch_height c = None)"
proof -
  from collectChanges_mem[OF assms(3,4)] obtain obj cs' where
    o: "obj \<in> set objs" "objectChanges m obj = Inr cs'" "c \<in> set cs'" by auto
  from objectChanges_mem[OF assms(1) assms(2)[OF o(1)] o(2,3)] obtain nx ny cs2 where
    n: "(nx, ny) \<in> set (getNeighbors (obj_x obj) (obj_y obj))"
       "neighborChange m obj (Some (m ! nat (obj_y obj) ! nat (obj_x obj))) (nx, ny) = Inr cs2" "c \<in> set cs2"
    by auto
  from n(1) have g: "inGrid nx ny" by (simp add: mem_getNeighbors)
  note p = neighborChange_props[OF assms(1) g n(2,3), folded tileAt_def]
  from p have e: "nx = ch_x c" "ny = ch_y c" by simp_all
  show ?thesis
    by (rule bexI[OF _ o(1)], rule exI[of _ cs']) (use p[unfolded e] n(1)[unfolded e] o(2,3) in simp)
qed

lemma foldl_untouched:
  "(\<And>c. c \<in> set cs \<Longrightarrow> \<not> (ch_x c = x \<and> ch_y c = y)) \<Longrightarrow>
   foldl (\<lambda>t c. if ch_x c = x \<and> ch_y c = y then changeTile c t else t) t cs = t"
  by (induction cs arbitrary: t) auto

lemma updateMap_wf:
  assumes "wf_map m" "\<And>obj. obj \<in> set objs \<Longrightarrow> inGrid (obj_x obj) (obj_y obj)"
  shows "\<exists>cs m'. collectChanges m objs = Inr cs \<and> updateMap objs m = Inr m' \<and> wf_map m' \<and>
     (\<forall>x y. inGrid x y \<longrightarrow>
        tileAt m' x y = foldl (\<lambda>t c. if ch_x c = x \<and> ch_y c = y then changeTile c t else t) (tileAt m x y) cs)"
proof -
  from collectChanges_total[OF assms] obtain cs where cs: "collectChanges m objs = Inr cs" by auto
  have "inGrid (ch_x c) (ch_y c)" if "c \<in> set cs" for c
    using collected_inGrid[OF assms cs that] .
  from applyChanges_wf[OF assms(1) this] cs show ?thesis
    by (simp add: updateMap_def)
qed

section \<open>A tick cannot fail\<close>

text \<open>
  Claim C9. For every object position inside the grid, \<open>getNeighbors\<close> returns exactly
  the 4-connected neighbors that lie inside the grid, each once (off-grid candidates are
  dropped, nothing wraps around). Hence, on a fully populated map with every object
  inside the grid, every cell that \<open>updateMap\<close> reads exists and the tick returns
  a new, fully populated map.
\<close>

theorem tick_never_fails:
  assumes "wf_map m" "\<forall>obj \<in> set objects. inGrid (obj_x obj) (obj_y obj)"
  shows "(\<forall>obj \<in> set objects.
            distinct (getNeighbors (obj_x obj) (obj_y obj)) \<and>
            set (getNeighbors (obj_x obj) (obj_y obj)) =
              {(a, b). \<bar>a - obj_x obj\<bar> + \<bar>b - obj_y obj\<bar> = 1 \<and> inGrid a b} \<and>
            (\<exists>t. getTile m (obj_x obj) (obj_y obj) = Inr (Some t)) \<and>
            (\<forall>(a, b) \<in> set (getNeighbors (obj_x obj) (obj_y obj)). \<exists>t. getTile m a b = Inr (Some t)))
         \<and> (\<exists>m'. updateMap objects m = Inr m' \<and> wf_map m')"
proof -
  have 1: "set (getNeighbors x y) = {(a, b). \<bar>a - x\<bar> + \<bar>b - y\<bar> = 1 \<and> inGrid a b}" for x y
    using mem_getNeighbors[of _ _ x y] by auto
  have 2: "\<exists>t. getTile m a b = Inr (Some t)" if "(a, b) \<in> set (getNeighbors x y)" for a b x y
    using that assms(1) by (simp add: mem_getNeighbors getTile_wf)
  have 3: "\<exists>t. getTile m (obj_x obj) (obj_y obj) = Inr (Some t)" if "obj \<in> set objects" for obj
    using that assms by (simp add: getTile_wf)
  have 4: "\<exists>m'. updateMap objects m = Inr m' \<and> wf_map m'"
    using updateMap_wf[of m objects] assms by blast
  show ?thesis using 1 2 3 4 distinct_getNeighbors by blast
qed

theorem tick_never_fails_witness:
  "wf_map flatMap \<and> inGrid 0 15 \<and> getNeighbors 0 15 = [(1, 15), (0, 14)] \<and>
   set (getNeighbors 0 15) = {(a, b). \<bar>a - 0\<bar> + \<bar>b - 15\<bar> = 1 \<and> inGrid a b} \<and>
   (\<exists>m'. updateMap [\<lparr>obj_x = 0, obj_y = 15, obj_type = obelisk, obj_effect = raise_terrain\<rparr>] flatMap = Inr m'
          \<and> wf_map m')"
  using tick_never_fails[of flatMap "[\<lparr>obj_x = 0, obj_y = 15, obj_type = obelisk, obj_effect = raise_terrain\<rparr>]"]
  by (simp add: wf_flatMap inGrid_def gridSize_def getNeighbors_def directions_def)

section \<open>Batched changes\<close>

lemma wf_waterMap: "wf_map waterMap"
  by (simp add: wf_map_def waterMap_def gridSize_def list_all_iff)

lemma tileAt_waterMap: "inGrid x y \<Longrightarrow> tileAt waterMap x y = \<lparr>ttype = WATER, height = 1\<rparr>"
proof -
  assume "inGrid x y"
  then have "nat y < 16" "nat x < 16" unfolding inGrid_def gridSize_def by linarith+
  then show ?thesis by (simp add: tileAt_def waterMap_def)
qed

lemma collectChanges_concat:
  "collectChanges m objs = Inr cs \<Longrightarrow>
   \<exists>css. map (objectChanges m) objs = map Inr css \<and> cs = concat css"
proof (induction objs arbitrary: cs)
  case Nil
  then show ?case by simp
next
  case (Cons obj objs)
  from Cons.prems obtain c1 c2 where
    h: "objectChanges m obj = Inr c1" "collectChanges m objs = Inr c2" "cs = c1 @ c2"
    by (auto split: sum.splits)
  from Cons.IH[OF h(2)] obtain css where "map (objectChanges m) objs = map Inr css" "c2 = concat css"
    by auto
  with h have "map (objectChanges m) (obj # objs) = map Inr (c1 # css) \<and> cs = concat (c1 # css)"
    by simp
  then show ?case by blast
qed

text \<open>
  Claim C4, as amended. On a fully populated map with every object inside the grid, one
  call of \<open>updateMap\<close> computes the changes of every object from the map as it was
  before the tick (the batch is the concatenation, in object order, of the lists that
  \<open>objectChanges\<close> gives for each object on that map), and then for every cell each field
  is decided separately: the type after the tick is the type of the last change that
  targets the cell and carries a type, the height is the height of the last change that
  targets the cell and carries a height, and a field that no such change carries keeps
  its value from before the tick.
\<close>

theorem batched_fieldwise_last_wins:
  assumes "wf_map m" "\<forall>obj \<in> set objects. inGrid (obj_x obj) (obj_y obj)"
  shows "\<exists>css m'. map (objectChanges m) objects = map Inr css \<and>
           collectChanges m objects = Inr (concat css) \<and>
           updateMap objects m = Inr m' \<and>
           (\<forall>x y. inGrid x y \<longrightarrow>
              getTile m' x y = Inr (Some
                \<lparr>ttype = (case lastType (concat css) x y of None \<Rightarrow> ttype (tileAt m x y) | Some ty \<Rightarrow> ty),
                 height = (case lastHeight (concat css) x y of None \<Rightarrow> height (tileAt m x y) | Some h \<Rightarrow> h)\<rparr>))"
proof -
  from updateMap_wf[of m objects] assms obtain cs m' where
    u: "collectChanges m objects = Inr cs" "updateMap objects m = Inr m'" "wf_map m'"
       "\<And>x y. inGrid x y \<Longrightarrow> tileAt m' x y =
          foldl (\<lambda>t c. if ch_x c = x \<and> ch_y c = y then changeTile c t else t) (tileAt m x y) cs"
    by blast
  from collectChanges_concat[OF u(1)] obtain css where
    c: "map (objectChanges m) objects = map Inr css" "cs = concat css" by auto
  have "getTile m' x y = Inr (Some
          \<lparr>ttype = (case lastType cs x y of None \<Rightarrow> ttype (tileAt m x y) | Some ty \<Rightarrow> ty),
           height = (case lastHeight cs x y of None \<Rightarrow> height (tileAt m x y) | Some h \<Rightarrow> h)\<rparr>)"
    if g: "inGrid x y" for x y
  proof -
    have "tileAt m' x y = \<lparr>ttype = ttype (tileAt m' x y), height = height (tileAt m' x y)\<rparr>"
      by simp
    also have "\<dots> = \<lparr>ttype = (case lastType cs x y of None \<Rightarrow> ttype (tileAt m x y) | Some ty \<Rightarrow> ty),
           height = (case lastHeight cs x y of None \<Rightarrow> height (tileAt m x y) | Some h \<Rightarrow> h)\<rparr>"
      unfolding u(4)[OF g] foldl_height foldl_ttype ..
    finally show ?thesis using getTile_tileAt[OF u(3) g] by simp
  qed
  with u c show ?thesis by blast
qed

lemma getNeighbors_5_5: "getNeighbors 5 5 = [(4, 5), (6, 5), (5, 4), (5, 6)]"
  by (simp add: getNeighbors_def directions_def gridSize_def)

lemma getNeighbors_7_5: "getNeighbors 7 5 = [(6, 5), (8, 5), (7, 4), (7, 6)]"
  by (simp add: getNeighbors_def directions_def gridSize_def)

lemma getTile_waterMap:
  "inGrid x y \<Longrightarrow> getTile waterMap x y = Inr (Some \<lparr>ttype = WATER, height = 1\<rparr>)"
  by (simp add: getTile_tileAt wf_waterMap tileAt_waterMap)

lemma collectChanges_obeliskAndTree:
  "collectChanges waterMap obeliskAndTree =
     Inr [\<lparr>ch_x = 4, ch_y = 5, ch_type = None, ch_height = Some 2\<rparr>,
          \<lparr>ch_x = 6, ch_y = 5, ch_type = None, ch_height = Some 2\<rparr>,
          \<lparr>ch_x = 5, ch_y = 4, ch_type = None, ch_height = Some 2\<rparr>,
          \<lparr>ch_x = 5, ch_y = 6, ch_type = None, ch_height = Some 2\<rparr>,
          \<lparr>ch_x = 6, ch_y = 5, ch_type = Some GRASS, ch_height = None\<rparr>,
          \<lparr>ch_x = 8, ch_y = 5, ch_type = Some GRASS, ch_height = None\<rparr>,
          \<lparr>ch_x = 7, ch_y = 4, ch_type = Some GRASS, ch_height = None\<rparr>,
          \<lparr>ch_x = 7, ch_y = 6, ch_type = Some GRASS, ch_height = None\<rparr>]"
  by (simp add: obeliskAndTree_def objectChanges_def getNeighbors_5_5 getNeighbors_7_5
      neighborChange_def getTile_waterMap inGrid_def gridSize_def)

lemma tileAfterTick_obeliskAndTree:
  "tileAfterTick obeliskAndTree waterMap 6 5 = Inr (Some \<lparr>ttype = GRASS, height = 2\<rparr>)"
proof -
  have g: "\<forall>obj \<in> set obeliskAndTree. inGrid (obj_x obj) (obj_y obj)"
    by (simp add: obeliskAndTree_def inGrid_def gridSize_def)
  from updateMap_wf[OF wf_waterMap, of obeliskAndTree] g obtain cs m' where
    u: "collectChanges waterMap obeliskAndTree = Inr cs" "updateMap obeliskAndTree waterMap = Inr m'"
       "wf_map m'"
       "\<And>x y. inGrid x y \<Longrightarrow> tileAt m' x y =
          foldl (\<lambda>t c. if ch_x c = x \<and> ch_y c = y then changeTile c t else t) (tileAt waterMap x y) cs"
    by blast
  have i: "inGrid 6 5" by (simp add: inGrid_def gridSize_def)
  from u(1) have cs: "cs = [\<lparr>ch_x = 4, ch_y = 5, ch_type = None, ch_height = Some 2\<rparr>,
          \<lparr>ch_x = 6, ch_y = 5, ch_type = None, ch_height = Some 2\<rparr>,
          \<lparr>ch_x = 5, ch_y = 4, ch_type = None, ch_height = Some 2\<rparr>,
          \<lparr>ch_x = 5, ch_y = 6, ch_type = None, ch_height = Some 2\<rparr>,
          \<lparr>ch_x = 6, ch_y = 5, ch_type = Some GRASS, ch_height = None\<rparr>,
          \<lparr>ch_x = 8, ch_y = 5, ch_type = Some GRASS, ch_height = None\<rparr>,
          \<lparr>ch_x = 7, ch_y = 4, ch_type = Some GRASS, ch_height = None\<rparr>,
          \<lparr>ch_x = 7, ch_y = 6, ch_type = Some GRASS, ch_height = None\<rparr>]"
    by (simp add: collectChanges_obeliskAndTree)
  have "tileAt m' 6 5 = \<lparr>ttype = GRASS, height = 2\<rparr>"
    unfolding u(4)[OF i] cs by (simp add: tileAt_waterMap[OF i] changeTile_def)
  with u(2,3) i show ?thesis by (simp add: tileAfterTick_def getTile_tileAt)
qed

text \<open>
  Claim C4 as stated fails: with an obelisk at \<open>(5, 5)\<close> and a tree at \<open>(7, 5)\<close> on the
  water map, the last change that targets \<open>(6, 5)\<close> is the tree's (type only), yet the cell
  ends with the height 2 that the obelisk's earlier change carries.
\<close>

theorem last_delta_alone_counterexample:
  "getTile waterMap 6 5 = Inr (Some \<lparr>ttype = WATER, height = 1\<rparr>) \<and>
   collectChanges waterMap obeliskAndTree =
     Inr [\<lparr>ch_x = 4, ch_y = 5, ch_type = None, ch_height = Some 2\<rparr>,
          \<lparr>ch_x = 6, ch_y = 5, ch_type = None, ch_height = Some 2\<rparr>,
          \<lparr>ch_x = 5, ch_y = 4, ch_type = None, ch_height = Some 2\<rparr>,
          \<lparr>ch_x = 5, ch_y = 6, ch_type = None, ch_height = Some 2\<rparr>,
          \<lparr>ch_x = 6, ch_y = 5, ch_type = Some GRASS, ch_height = None\<rparr>,
          \<lparr>ch_x = 8, ch_y = 5, ch_type = Some GRASS, ch_height = None\<rparr>,
          \<lparr>ch_x = 7, ch_y = 4, ch_type = Some GRASS, ch_height = None\<rparr>,
          \<lparr>ch_x = 7, ch_y = 6, ch_type = Some GRASS, ch_height = None\<rparr>] \<and>
   changeTile \<lparr>ch_x = 6, ch_y = 5, ch_type = Some GRASS, ch_height = None\<rparr>
       \<lparr>ttype = WATER, height = 1\<rparr> = \<lparr>ttype = GRASS, height = 1\<rparr> \<and>
   tileAfterTick obeliskAndTree waterMap 6 5 = Inr (Some \<lparr>ttype = GRASS, height = 2\<rparr>) \<and>
   \<not> lastDeltaWins obeliskAndTree waterMap 6 5"
  by (simp add: lastDeltaWins_def collectChanges_obeliskAndTree tileAfterTick_obeliskAndTree
      changeTile_def tileAt_waterMap getTile_waterMap inGrid_def gridSize_def)

theorem batched_fieldwise_last_wins_witness:
  "wf_map waterMap \<and> inGrid 6 5 \<and>
   lastType [\<lparr>ch_x = 4, ch_y = 5, ch_type = None, ch_height = Some 2\<rparr>,
          \<lparr>ch_x = 6, ch_y = 5, ch_type = None, ch_height = Some 2\<rparr>,
          \<lparr>ch_x = 5, ch_y = 4, ch_type = None, ch_height = Some 2\<rparr>,
          \<lparr>ch_x = 5, ch_y = 6, ch_type = None, ch_height = Some 2\<rparr>,
          \<lparr>ch_x = 6, ch_y = 5, ch_type = Some GRASS, ch_height = None\<rparr>,
          \<lparr>ch_x = 8, ch_y = 5, ch_type = Some GRASS, ch_height = None\<rparr>,
          \<lparr>ch_x = 7, ch_y = 4, ch_type = Some GRASS, ch_height = None\<rparr>,
          \<lparr>ch_x = 7, ch_y = 6, ch_type = Some GRASS, ch_height = None\<rparr>] 6 5 = Some GRASS \<and>
   lastHeight [\<lparr>ch_x = 4, ch_y = 5, ch_type = None, ch_height = Some 2\<rparr>,
          \<lparr>ch_x = 6, ch_y = 5, ch_type = None, ch_height = Some 2\<rparr>,
          \<lparr>ch_x = 5, ch_y = 4, ch_type = None, ch_height = Some 2\<rparr>,
          \<lparr>ch_x = 5, ch_y = 6, ch_type = None, ch_height = Some 2\<rparr>,
          \<lparr>ch_x = 6, ch_y = 5, ch_type = Some GRASS, ch_height = None\<rparr>,
          \<lparr>ch_x = 8, ch_y = 5, ch_type = Some GRASS, ch_height = None\<rparr>,
          \<lparr>ch_x = 7, ch_y = 4, ch_type = Some GRASS, ch_height = None\<rparr>,
          \<lparr>ch_x = 7, ch_y = 6, ch_type = Some GRASS, ch_height = None\<rparr>] 6 5 = Some 2 \<and>
   tileAfterTick obeliskAndTree waterMap 6 5 = Inr (Some \<lparr>ttype = GRASS, height = 2\<rparr>)"
proof -
  have g: "\<forall>obj \<in> set obeliskAndTree. inGrid (obj_x obj) (obj_y obj)"
    by (simp add: obeliskAndTree_def inGrid_def gridSize_def)
  have i: "inGrid 6 5" by (simp add: inGrid_def gridSize_def)
  from batched_fieldwise_last_wins[OF wf_waterMap g] obtain css m' where
    u: "collectChanges waterMap obeliskAndTree = Inr (concat css)"
       "updateMap obeliskAndTree waterMap = Inr m'"
       "getTile m' 6 5 = Inr (Some
                \<lparr>ttype = (case lastType (concat css) 6 5 of None \<Rightarrow> ttype (tileAt waterMap 6 5) | Some ty \<Rightarrow> ty),
                 height = (case lastHeight (concat css) 6 5 of None \<Rightarrow> height (tileAt waterMap 6 5) | Some h \<Rightarrow> h)\<rparr>)"
    using i by blast
  from u(1) have c: "concat css = [\<lparr>ch_x = 4, ch_y = 5, ch_type = None, ch_height = Some 2\<rparr>,
          \<lparr>ch_x = 6, ch_y = 5, ch_type = None, ch_height = Some 2\<rparr>,
          \<lparr>ch_x = 5, ch_y = 4, ch_type = None, ch_height = Some 2\<rparr>,
          \<lparr>ch_x = 5, ch_y = 6, ch_type = None, ch_height = Some 2\<rparr>,
          \<lparr>ch_x = 6, ch_y = 5, ch_type = Some GRASS, ch_height = None\<rparr>,
          \<lparr>ch_x = 8, ch_y = 5, ch_type = Some GRASS, ch_height = None\<rparr>,
          \<lparr>ch_x = 7, ch_y = 4, ch_type = Some GRASS, ch_height = None\<rparr>,
          \<lparr>ch_x = 7, ch_y = 6, ch_type = Some GRASS, ch_height = None\<rparr>]"
    by (simp add: collectChanges_obeliskAndTree)
  have lt: "lastType (concat css) 6 5 = Some GRASS" unfolding c by (simp add: lastType_def)
  have lh: "lastHeight (concat css) 6 5 = Some 2" unfolding c by (simp add: lastHeight_def)
  from u(2,3) have "tileAfterTick obeliskAndTree waterMap 6 5 = Inr (Some \<lparr>ttype = GRASS, height = 2\<rparr>)"
    by (simp add: tileAfterTick_def lt lh)
  with lt lh show ?thesis unfolding c using wf_waterMap i by simp
qed

section \<open>What a tick leaves alone\<close>

lemma lastHeight_None:
  "(\<And>c. c \<in> set cs \<Longrightarrow> ch_x c = x \<Longrightarrow> ch_y c = y \<Longrightarrow> ch_height c = None) \<Longrightarrow>
   lastHeight cs x y = None"
proof -
  assume a: "\<And>c. c \<in> set cs \<Longrightarrow> ch_x c = x \<Longrightarrow> ch_y c = y \<Longrightarrow> ch_height c = None"
  have "filter (\<lambda>c. ch_x c = x \<and> ch_y c = y \<and> ch_height c \<noteq> None) cs = []"
    using a by (auto simp: filter_empty_conv)
  then show ?thesis by (simp add: lastHeight_def)
qed

lemma lastHeight_Some:
  "lastHeight cs x y = Some h \<Longrightarrow> \<exists>c \<in> set cs. ch_x c = x \<and> ch_y c = y \<and> ch_height c = Some h"
proof -
  assume a: "lastHeight cs x y = Some h"
  let ?fs = "filter (\<lambda>c. ch_x c = x \<and> ch_y c = y \<and> ch_height c \<noteq> None) cs"
  from a have ne: "?fs \<noteq> []" and l: "ch_height (last ?fs) = Some h"
    by (auto simp: lastHeight_def split: list.splits)
  from ne have "last ?fs \<in> set ?fs" by (rule last_in_set)
  with l show ?thesis by auto
qed

lemma lastType_Some:
  "lastType cs x y = Some ty \<Longrightarrow> \<exists>c \<in> set cs. ch_x c = x \<and> ch_y c = y \<and> ch_type c = Some ty"
proof -
  assume a: "lastType cs x y = Some ty"
  let ?fs = "filter (\<lambda>c. ch_x c = x \<and> ch_y c = y \<and> ch_type c \<noteq> None) cs"
  from a have ne: "?fs \<noteq> []" and l: "ch_type (last ?fs) = Some ty"
    by (auto simp: lastType_def split: list.splits)
  from ne have "last ?fs \<in> set ?fs" by (rule last_in_set)
  with l show ?thesis by auto
qed

lemma objectChanges_spread_grass:
  assumes "wf_map m" "inGrid (obj_x obj) (obj_y obj)" "obj_effect obj = spread_grass"
    "objectChanges m obj = Inr cs" "c \<in> set cs"
  shows "ch_height c = None \<and> ch_type c = Some GRASS"
proof -
  from objectChanges_mem[OF assms(1,2,4,5)] obtain nx ny cs' where
    n: "(nx, ny) \<in> set (getNeighbors (obj_x obj) (obj_y obj))"
       "neighborChange m obj (Some (m ! nat (obj_y obj) ! nat (obj_x obj))) (nx, ny) = Inr cs'" "c \<in> set cs'"
    by auto
  from n(1) have g: "inGrid nx ny" by (simp add: mem_getNeighbors)
  from neighborChange_props[OF assms(1) g n(2,3)] assms(3) show ?thesis by simp
qed

text \<open>
  Claim C10. On a fully populated map with every object inside the grid, a tick changes
  only cells that are 4-connected neighbors of some object: a cell at Manhattan distance
  other than 1 from every object keeps its exact type and height. A cell whose only
  adjacent objects are trees keeps its height, because every change that a
  \<open>spread_grass\<close> object produces carries a type (grass) and no height. With an empty
  object list the tick returns the map unchanged.
\<close>

theorem tick_frame:
  assumes "wf_map m" "\<forall>obj \<in> set objects. inGrid (obj_x obj) (obj_y obj)"
  shows "\<exists>m'. updateMap objects m = Inr m' \<and>
     (\<forall>x y. inGrid x y \<and> \<not> (\<exists>obj \<in> set objects. \<bar>x - obj_x obj\<bar> + \<bar>y - obj_y obj\<bar> = 1)
        \<longrightarrow> getTile m' x y = getTile m x y) \<and>
     (\<forall>x y. inGrid x y \<and>
          (\<forall>obj \<in> set objects. \<bar>x - obj_x obj\<bar> + \<bar>y - obj_y obj\<bar> = 1 \<longrightarrow> obj_effect obj = spread_grass)
        \<longrightarrow> height (tileAt m' x y) = height (tileAt m x y)) \<and>
     (\<forall>obj \<in> set objects. obj_effect obj = spread_grass \<longrightarrow>
        (\<forall>cs. objectChanges m obj = Inr cs \<longrightarrow>
           (\<forall>c \<in> set cs. ch_height c = None \<and> ch_type c = Some GRASS))) \<and>
     updateMap [] m = Inr m"
proof -
  from updateMap_wf[of m objects] assms obtain cs m' where
    u: "collectChanges m objects = Inr cs" "updateMap objects m = Inr m'" "wf_map m'"
       "\<And>x y. inGrid x y \<Longrightarrow> tileAt m' x y =
          foldl (\<lambda>t c. if ch_x c = x \<and> ch_y c = y then changeTile c t else t) (tileAt m x y) cs"
    by blast
  have origin: "\<exists>obj \<in> set objects. \<bar>ch_x c - obj_x obj\<bar> + \<bar>ch_y c - obj_y obj\<bar> = 1 \<and>
                  (obj_effect obj = spread_grass \<longrightarrow> ch_height c = None)"
    if "c \<in> set cs" for c
  proof -
    from change_origin[OF assms(1) _ u(1) that] assms(2) obtain obj where
      o: "obj \<in> set objects" "(ch_x c, ch_y c) \<in> set (getNeighbors (obj_x obj) (obj_y obj))"
        "(case obj_effect obj of
       raise_terrain \<Rightarrow> ch_type c = None \<and> ch_height c = Some (height (tileAt m (ch_x c) (ch_y c)) + 1) \<and>
                          height (tileAt m (ch_x c) (ch_y c)) + 1 \<le> height (tileAt m (obj_x obj) (obj_y obj)) + 2
     | lower_terrain \<Rightarrow> ch_type c = None \<and> ch_height c = Some (height (tileAt m (ch_x c) (ch_y c)) - 1) \<and>
                          0 \<le> height (tileAt m (ch_x c) (ch_y c)) - 1
     | raise_water \<Rightarrow> ch_type c = Some WATER \<and> ch_height c = Some (height (tileAt m (obj_x obj) (obj_y obj)))
     | spread_grass \<Rightarrow> ch_type c = Some GRASS \<and> ch_height c = None)"
      by blast
    from o(2) have "\<bar>ch_x c - obj_x obj\<bar> + \<bar>ch_y c - obj_y obj\<bar> = 1" by (simp add: mem_getNeighbors)
    moreover from o(3) have "obj_effect obj = spread_grass \<longrightarrow> ch_height c = None" by auto
    ultimately show ?thesis using o(1) by blast
  qed
  have 1: "getTile m' x y = getTile m x y"
    if "inGrid x y" "\<not> (\<exists>obj \<in> set objects. \<bar>x - obj_x obj\<bar> + \<bar>y - obj_y obj\<bar> = 1)" for x y
  proof -
    have "\<not> (ch_x c = x \<and> ch_y c = y)" if "c \<in> set cs" for c
      using origin[OF that] \<open>\<not> (\<exists>obj \<in> set objects. \<bar>x - obj_x obj\<bar> + \<bar>y - obj_y obj\<bar> = 1)\<close> by auto
    then have "tileAt m' x y = tileAt m x y"
      unfolding u(4)[OF that(1)] by (rule foldl_untouched)
    with that(1) assms(1) u(3) show ?thesis by (simp add: getTile_tileAt)
  qed
  have 2: "height (tileAt m' x y) = height (tileAt m x y)"
    if "inGrid x y"
      "\<forall>obj \<in> set objects. \<bar>x - obj_x obj\<bar> + \<bar>y - obj_y obj\<bar> = 1 \<longrightarrow> obj_effect obj = spread_grass"
    for x y
  proof -
    have "ch_height c = None" if "c \<in> set cs" "ch_x c = x" "ch_y c = y" for c
      using origin[OF that(1)] that(2,3)
        \<open>\<forall>obj \<in> set objects. \<bar>x - obj_x obj\<bar> + \<bar>y - obj_y obj\<bar> = 1 \<longrightarrow> obj_effect obj = spread_grass\<close>
      by auto
    then have "lastHeight cs x y = None" by (rule lastHeight_None)
    then show ?thesis unfolding u(4)[OF that(1)] foldl_height by simp
  qed
  have 3: "ch_height c = None \<and> ch_type c = Some GRASS"
    if "obj \<in> set objects" "obj_effect obj = spread_grass" "objectChanges m obj = Inr cs'" "c \<in> set cs'"
    for obj cs' c
    using objectChanges_spread_grass[OF assms(1) _ that(2,3,4)] that(1) assms(2) by blast
  have 4: "updateMap [] m = Inr m" by (simp add: updateMap_def)
  from u(2) 1 2 3 4 show ?thesis by blast
qed

theorem tick_frame_witness:
  "wf_map waterMap \<and> inGrid 3 3 \<and> inGrid 10 10 \<and> inGrid 4 3 \<and>
   (\<exists>m'. updateMap treeAt33 waterMap = Inr m' \<and>
         getTile m' 10 10 = Inr (Some \<lparr>ttype = WATER, height = 1\<rparr>) \<and>
         height (tileAt m' 4 3) = 1) \<and>
   updateMap [] waterMap = Inr waterMap"
proof -
  have g: "\<forall>obj \<in> set treeAt33. inGrid (obj_x obj) (obj_y obj)"
    by (simp add: treeAt33_def inGrid_def gridSize_def)
  have i: "inGrid 3 3" "inGrid 10 10" "inGrid 4 3" by (simp_all add: inGrid_def gridSize_def)
  from tick_frame[OF wf_waterMap g] obtain m' where
    u: "updateMap treeAt33 waterMap = Inr m'"
       "\<And>x y. inGrid x y \<and> \<not> (\<exists>obj \<in> set treeAt33. \<bar>x - obj_x obj\<bar> + \<bar>y - obj_y obj\<bar> = 1)
          \<Longrightarrow> getTile m' x y = getTile waterMap x y"
       "\<And>x y. inGrid x y \<and>
          (\<forall>obj \<in> set treeAt33. \<bar>x - obj_x obj\<bar> + \<bar>y - obj_y obj\<bar> = 1 \<longrightarrow> obj_effect obj = spread_grass)
          \<Longrightarrow> height (tileAt m' x y) = height (tileAt waterMap x y)"
       "updateMap [] waterMap = Inr waterMap"
    by blast
  have a: "getTile m' 10 10 = Inr (Some \<lparr>ttype = WATER, height = 1\<rparr>)"
    using u(2)[of 10 10] i by (simp add: treeAt33_def getTile_waterMap)
  have b: "height (tileAt m' 4 3) = 1"
    using u(3)[of 4 3] i by (simp add: treeAt33_def tileAt_waterMap)
  from u(1,4) a b i wf_waterMap show ?thesis by blast
qed

section \<open>Terrain clamp\<close>

lemma heights_nonneg_tileAt:
  assumes "wf_map m"
  shows "heights_nonneg m \<longleftrightarrow> (\<forall>x y. inGrid x y \<longrightarrow> 0 \<le> height (tileAt m x y))"
proof
  assume h: "heights_nonneg m"
  show "\<forall>x y. inGrid x y \<longrightarrow> 0 \<le> height (tileAt m x y)"
  proof (intro allI impI)
    fix x y assume g: "inGrid x y"
    then have "nat y < length m" using assms unfolding inGrid_def wf_map_def by linarith
    moreover have "nat x < length (m ! nat y)"
      using length_row_wf[OF assms, of y] g unfolding inGrid_def by linarith
    ultimately show "0 \<le> height (tileAt m x y)"
      using h by (simp add: heights_nonneg_def list_all_length tileAt_def)
  qed
next
  assume a: "\<forall>x y. inGrid x y \<longrightarrow> 0 \<le> height (tileAt m x y)"
  have "0 \<le> height (m ! i ! j)" if "i < length m" "j < length (m ! i)" for i j
  proof -
    have "int i < gridSize" using that(1) assms unfolding wf_map_def by linarith
    moreover have "int j < gridSize"
      using length_row_wf[OF assms, of "int i"] that(2) \<open>int i < gridSize\<close> by simp
    ultimately have "inGrid (int j) (int i)" by (simp add: inGrid_def)
    with a have "0 \<le> height (tileAt m (int j) (int i))" by blast
    then show ?thesis by (simp add: tileAt_def)
  qed
  then show "heights_nonneg m" by (simp add: heights_nonneg_def list_all_length)
qed

lemma updateMap_nonneg:
  assumes "wf_map m" "heights_nonneg m" "\<And>obj. obj \<in> set objs \<Longrightarrow> inGrid (obj_x obj) (obj_y obj)"
  shows "\<exists>m'. updateMap objs m = Inr m' \<and> wf_map m' \<and> heights_nonneg m'"
proof -
  from updateMap_wf[of m objs, OF assms(1,3)] obtain cs m' where
    u: "collectChanges m objs = Inr cs" "updateMap objs m = Inr m'" "wf_map m'"
       "\<And>x y. inGrid x y \<Longrightarrow> tileAt m' x y =
          foldl (\<lambda>t c. if ch_x c = x \<and> ch_y c = y then changeTile c t else t) (tileAt m x y) cs"
    by blast
  note nn = heights_nonneg_tileAt[OF assms(1), THEN iffD1, OF assms(2), rule_format]
  have cnn: "0 \<le> h" if "c \<in> set cs" "ch_height c = Some h" for c h
  proof -
    from change_origin[of m objs, OF assms(1) assms(3) u(1) that(1)] obtain obj where
      o: "obj \<in> set objs" "(ch_x c, ch_y c) \<in> set (getNeighbors (obj_x obj) (obj_y obj))"
        "(case obj_effect obj of
       raise_terrain \<Rightarrow> ch_type c = None \<and> ch_height c = Some (height (tileAt m (ch_x c) (ch_y c)) + 1) \<and>
                          height (tileAt m (ch_x c) (ch_y c)) + 1 \<le> height (tileAt m (obj_x obj) (obj_y obj)) + 2
     | lower_terrain \<Rightarrow> ch_type c = None \<and> ch_height c = Some (height (tileAt m (ch_x c) (ch_y c)) - 1) \<and>
                          0 \<le> height (tileAt m (ch_x c) (ch_y c)) - 1
     | raise_water \<Rightarrow> ch_type c = Some WATER \<and> ch_height c = Some (height (tileAt m (obj_x obj) (obj_y obj)))
     | spread_grass \<Rightarrow> ch_type c = Some GRASS \<and> ch_height c = None)"
      by blast
    from o(2) have g: "inGrid (ch_x c) (ch_y c)" by (simp add: mem_getNeighbors)
    from nn[OF g] nn[OF assms(3)[OF o(1)]] o(3) that(2) show ?thesis
      by (cases "obj_effect obj") auto
  qed
  have "0 \<le> height (tileAt m' x y)" if g: "inGrid x y" for x y
  proof (cases "lastHeight cs x y")
    case None
    then show ?thesis unfolding u(4)[OF g] foldl_height using nn[OF g] by simp
  next
    case (Some h)
    from lastHeight_Some[OF this] cnn have "0 \<le> h" by blast
    with Some show ?thesis unfolding u(4)[OF g] foldl_height by simp
  qed
  with u(2,3) show ?thesis by (simp add: heights_nonneg_tileAt)
qed

lemma ticks_nonneg:
  assumes "\<And>obj. obj \<in> set objs \<Longrightarrow> inGrid (obj_x obj) (obj_y obj)"
  shows "wf_map m \<Longrightarrow> heights_nonneg m \<Longrightarrow>
         \<exists>mn. ticks n objs m = Inr mn \<and> wf_map mn \<and> heights_nonneg mn"
proof (induction n arbitrary: m)
  case 0
  then show ?case by simp
next
  case (Suc n)
  from updateMap_nonneg[OF Suc.prems assms] obtain m' where
    m': "updateMap objs m = Inr m'" "wf_map m'" "heights_nonneg m'" by blast
  from Suc.IH[OF m'(2,3)] m'(1) show ?case by simp
qed

lemma objectChanges_clamp:
  assumes "wf_map m" "inGrid (obj_x obj) (obj_y obj)" "objectChanges m obj = Inr cs" "c \<in> set cs"
  shows "(obj_effect obj = raise_terrain \<longrightarrow>
            (\<exists>h. ch_height c = Some h \<and> h = height (tileAt m (ch_x c) (ch_y c)) + 1 \<and>
                 h \<le> height (tileAt m (obj_x obj) (obj_y obj)) + 2)) \<and>
         (obj_effect obj = lower_terrain \<longrightarrow>
            (\<exists>h. ch_height c = Some h \<and> h = height (tileAt m (ch_x c) (ch_y c)) - 1 \<and> 0 \<le> h))"
proof -
  from objectChanges_mem[OF assms] obtain nx ny cs' where
    n: "(nx, ny) \<in> set (getNeighbors (obj_x obj) (obj_y obj))"
       "neighborChange m obj (Some (m ! nat (obj_y obj) ! nat (obj_x obj))) (nx, ny) = Inr cs'" "c \<in> set cs'"
    by auto
  from n(1) have g: "inGrid nx ny" by (simp add: mem_getNeighbors)
  note p = neighborChange_props[OF assms(1) g n(2,3), folded tileAt_def]
  from p have e: "nx = ch_x c" "ny = ch_y c" by simp_all
  from p[unfolded e] show ?thesis by (cases "obj_effect obj") simp_all
qed

lemma tick_raise_cause:
  assumes "wf_map m" "\<And>obj. obj \<in> set objs \<Longrightarrow> inGrid (obj_x obj) (obj_y obj)"
    "updateMap objs m = Inr m'" "inGrid x y" "height (tileAt m x y) < height (tileAt m' x y)"
  shows "\<exists>obj \<in> set objs. \<bar>x - obj_x obj\<bar> + \<bar>y - obj_y obj\<bar> = 1 \<and>
           (obj_effect obj = raise_terrain \<and> height (tileAt m' x y) = height (tileAt m x y) + 1 \<and>
              height (tileAt m' x y) \<le> height (tileAt m (obj_x obj) (obj_y obj)) + 2 \<or>
            obj_effect obj = raise_water \<and>
              height (tileAt m' x y) = height (tileAt m (obj_x obj) (obj_y obj)))"
proof -
  from updateMap_wf[of m objs, OF assms(1,2)] assms(3) obtain cs where
    u: "collectChanges m objs = Inr cs"
       "\<And>x y. inGrid x y \<Longrightarrow> tileAt m' x y =
          foldl (\<lambda>t c. if ch_x c = x \<and> ch_y c = y then changeTile c t else t) (tileAt m x y) cs"
    by auto
  from assms(5) obtain h where h: "lastHeight cs x y = Some h" "height (tileAt m' x y) = h"
    unfolding u(2)[OF assms(4)] foldl_height by (cases "lastHeight cs x y") auto
  from lastHeight_Some[OF h(1)] obtain c where
    c: "c \<in> set cs" "ch_x c = x" "ch_y c = y" "ch_height c = Some h" by blast
  from change_origin[of m objs, OF assms(1,2) u(1) c(1)] obtain obj where
      o: "obj \<in> set objs" "(ch_x c, ch_y c) \<in> set (getNeighbors (obj_x obj) (obj_y obj))"
        "(case obj_effect obj of
       raise_terrain \<Rightarrow> ch_type c = None \<and> ch_height c = Some (height (tileAt m (ch_x c) (ch_y c)) + 1) \<and>
                          height (tileAt m (ch_x c) (ch_y c)) + 1 \<le> height (tileAt m (obj_x obj) (obj_y obj)) + 2
     | lower_terrain \<Rightarrow> ch_type c = None \<and> ch_height c = Some (height (tileAt m (ch_x c) (ch_y c)) - 1) \<and>
                          0 \<le> height (tileAt m (ch_x c) (ch_y c)) - 1
     | raise_water \<Rightarrow> ch_type c = Some WATER \<and> ch_height c = Some (height (tileAt m (obj_x obj) (obj_y obj)))
     | spread_grass \<Rightarrow> ch_type c = Some GRASS \<and> ch_height c = None)"
      by blast
  from o(2) c(2,3) have adj: "\<bar>x - obj_x obj\<bar> + \<bar>y - obj_y obj\<bar> = 1" by (simp add: mem_getNeighbors)
  from o(3) c(2,3,4) h(2) assms(5)
  have "obj_effect obj = raise_terrain \<and> height (tileAt m' x y) = height (tileAt m x y) + 1 \<and>
              height (tileAt m' x y) \<le> height (tileAt m (obj_x obj) (obj_y obj)) + 2 \<or>
            obj_effect obj = raise_water \<and>
              height (tileAt m' x y) = height (tileAt m (obj_x obj) (obj_y obj))"
    by (cases "obj_effect obj") auto
  with o(1) adj show ?thesis by blast
qed

text \<open>
  Claim C3. Start from a fully populated map with non-negative heights and objects
  inside the grid, and run any number \<open>n\<close> of ticks; call the result \<open>mn\<close> and the
  map after one more tick \<open>m'\<close>. No tick fails, and the heights of \<open>mn\<close> and of \<open>m'\<close>
  are non-negative. In the tick from \<open>mn\<close> to \<open>m'\<close>, every change that a
  \<open>raise_terrain\<close> object produces sets a neighbor to its height plus one, which is at most
  the height of the object's own tile plus 2, and every change that a \<open>lower_terrain\<close>
  object produces sets a neighbor to its height minus one, which is at least 0. Moreover
  a cell whose height grew in that tick is adjacent to an obelisk and is now at most 2
  above the obelisk's tile (as read in that tick), or adjacent to a fountain and now
  level with the fountain's tile.
\<close>

theorem terrain_clamp:
  assumes "wf_map m" "heights_nonneg m" "\<forall>obj \<in> set objects. inGrid (obj_x obj) (obj_y obj)"
  shows "\<exists>mn m'. ticks n objects m = Inr mn \<and> updateMap objects mn = Inr m' \<and>
           wf_map mn \<and> heights_nonneg mn \<and> heights_nonneg m' \<and>
           (\<forall>obj \<in> set objects. \<exists>cs. objectChanges mn obj = Inr cs \<and>
              (\<forall>c \<in> set cs.
                 (obj_effect obj = raise_terrain \<longrightarrow>
                    (\<exists>h. ch_height c = Some h \<and> h = height (tileAt mn (ch_x c) (ch_y c)) + 1 \<and>
                         h \<le> height (tileAt mn (obj_x obj) (obj_y obj)) + 2)) \<and>
                 (obj_effect obj = lower_terrain \<longrightarrow>
                    (\<exists>h. ch_height c = Some h \<and> h = height (tileAt mn (ch_x c) (ch_y c)) - 1 \<and> 0 \<le> h)))) \<and>
           (\<forall>x y. inGrid x y \<and> height (tileAt mn x y) < height (tileAt m' x y) \<longrightarrow>
              (\<exists>obj \<in> set objects. \<bar>x - obj_x obj\<bar> + \<bar>y - obj_y obj\<bar> = 1 \<and>
                 (obj_effect obj = raise_terrain \<and> height (tileAt m' x y) = height (tileAt mn x y) + 1 \<and>
                    height (tileAt m' x y) \<le> height (tileAt mn (obj_x obj) (obj_y obj)) + 2 \<or>
                  obj_effect obj = raise_water \<and>
                    height (tileAt m' x y) = height (tileAt mn (obj_x obj) (obj_y obj)))))"
proof -
  have g: "inGrid (obj_x obj) (obj_y obj)" if "obj \<in> set objects" for obj
    using that assms(3) by blast
  from ticks_nonneg[OF g assms(1,2), of objects n] obtain mn where
    mn: "ticks n objects m = Inr mn" "wf_map mn" "heights_nonneg mn" by blast
  from updateMap_nonneg[OF mn(2,3) g] obtain m' where
    m': "updateMap objects mn = Inr m'" "heights_nonneg m'" by blast
  have d: "\<exists>cs. objectChanges mn obj = Inr cs \<and>
              (\<forall>c \<in> set cs.
                 (obj_effect obj = raise_terrain \<longrightarrow>
                    (\<exists>h. ch_height c = Some h \<and> h = height (tileAt mn (ch_x c) (ch_y c)) + 1 \<and>
                         h \<le> height (tileAt mn (obj_x obj) (obj_y obj)) + 2)) \<and>
                 (obj_effect obj = lower_terrain \<longrightarrow>
                    (\<exists>h. ch_height c = Some h \<and> h = height (tileAt mn (ch_x c) (ch_y c)) - 1 \<and> 0 \<le> h)))"
    if "obj \<in> set objects" for obj
  proof -
    from objectChanges_total[OF mn(2) g[OF that]] obtain cs where cs: "objectChanges mn obj = Inr cs"
      by blast
    from objectChanges_clamp[OF mn(2) g[OF that] cs] cs show ?thesis by blast
  qed
  have r: "\<exists>obj \<in> set objects. \<bar>x - obj_x obj\<bar> + \<bar>y - obj_y obj\<bar> = 1 \<and>
                 (obj_effect obj = raise_terrain \<and> height (tileAt m' x y) = height (tileAt mn x y) + 1 \<and>
                    height (tileAt m' x y) \<le> height (tileAt mn (obj_x obj) (obj_y obj)) + 2 \<or>
                  obj_effect obj = raise_water \<and>
                    height (tileAt m' x y) = height (tileAt mn (obj_x obj) (obj_y obj)))"
    if "inGrid x y" "height (tileAt mn x y) < height (tileAt m' x y)" for x y
    using tick_raise_cause[OF mn(2) g m'(1) that] .
  from mn m' d r show ?thesis by blast
qed

lemma wf_flatMap_nonneg: "heights_nonneg flatMap"
  by (simp add: heights_nonneg_def flatMap_def list_all_iff)

lemma getTile_flatMap:
  "inGrid x y \<Longrightarrow> getTile flatMap x y = Inr (Some \<lparr>ttype = GRASS, height = 1\<rparr>)"
  by (simp add: getTile_tileAt wf_flatMap tileAt_flatMap)

lemma getNeighbors_6_6: "getNeighbors 6 6 = [(5, 6), (7, 6), (6, 5), (6, 7)]"
  by (simp add: getNeighbors_def directions_def gridSize_def)

theorem terrain_clamp_witness:
  "wf_map flatMap \<and> heights_nonneg flatMap \<and> inGrid 5 5 \<and> inGrid 6 6 \<and>
   (\<exists>mn m'. ticks 1 obeliskAndExcavator flatMap = Inr mn \<and>
        updateMap obeliskAndExcavator mn = Inr m' \<and>
        wf_map mn \<and> heights_nonneg mn \<and> heights_nonneg m' \<and>
        height (tileAt mn 5 5) = 1 \<and> height (tileAt mn 4 5) = 2 \<and> height (tileAt mn 6 5) = 0 \<and>
        objectChanges mn \<lparr>obj_x = 5, obj_y = 5, obj_type = obelisk, obj_effect = raise_terrain\<rparr> =
          Inr [\<lparr>ch_x = 4, ch_y = 5, ch_type = None, ch_height = Some 3\<rparr>,
               \<lparr>ch_x = 6, ch_y = 5, ch_type = None, ch_height = Some 1\<rparr>,
               \<lparr>ch_x = 5, ch_y = 4, ch_type = None, ch_height = Some 3\<rparr>,
               \<lparr>ch_x = 5, ch_y = 6, ch_type = None, ch_height = Some 1\<rparr>] \<and>
        objectChanges flatMap \<lparr>obj_x = 6, obj_y = 6, obj_type = excavator, obj_effect = lower_terrain\<rparr> =
          Inr [\<lparr>ch_x = 5, ch_y = 6, ch_type = None, ch_height = Some 0\<rparr>,
               \<lparr>ch_x = 7, ch_y = 6, ch_type = None, ch_height = Some 0\<rparr>,
               \<lparr>ch_x = 6, ch_y = 5, ch_type = None, ch_height = Some 0\<rparr>,
               \<lparr>ch_x = 6, ch_y = 7, ch_type = None, ch_height = Some 0\<rparr>])"
proof -
  let ?O = "\<lparr>obj_x = 5, obj_y = 5, obj_type = obelisk, obj_effect = raise_terrain\<rparr>"
  let ?E = "\<lparr>obj_x = 6, obj_y = 6, obj_type = excavator, obj_effect = lower_terrain\<rparr>"
  have g: "\<forall>obj \<in> set obeliskAndExcavator. inGrid (obj_x obj) (obj_y obj)"
    by (simp add: obeliskAndExcavator_def inGrid_def gridSize_def)
  have i: "inGrid 5 5" "inGrid 6 6" "inGrid 4 5" "inGrid 6 5" "inGrid 5 4" "inGrid 5 6"
    "inGrid 7 6" "inGrid 6 7"
    by (simp_all add: inGrid_def gridSize_def)
  from terrain_clamp[OF wf_flatMap wf_flatMap_nonneg g, of 1] obtain mn m' where
    t: "ticks 1 obeliskAndExcavator flatMap = Inr mn" "updateMap obeliskAndExcavator mn = Inr m'"
       "wf_map mn" "heights_nonneg mn" "heights_nonneg m'"
    by blast
  have cO: "objectChanges flatMap ?O =
          Inr [\<lparr>ch_x = 4, ch_y = 5, ch_type = None, ch_height = Some 2\<rparr>,
               \<lparr>ch_x = 6, ch_y = 5, ch_type = None, ch_height = Some 2\<rparr>,
               \<lparr>ch_x = 5, ch_y = 4, ch_type = None, ch_height = Some 2\<rparr>,
               \<lparr>ch_x = 5, ch_y = 6, ch_type = None, ch_height = Some 2\<rparr>]"
    by (simp add: objectChanges_def getNeighbors_5_5 neighborChange_def getTile_flatMap i)
  have cE: "objectChanges flatMap ?E =
          Inr [\<lparr>ch_x = 5, ch_y = 6, ch_type = None, ch_height = Some 0\<rparr>,
               \<lparr>ch_x = 7, ch_y = 6, ch_type = None, ch_height = Some 0\<rparr>,
               \<lparr>ch_x = 6, ch_y = 5, ch_type = None, ch_height = Some 0\<rparr>,
               \<lparr>ch_x = 6, ch_y = 7, ch_type = None, ch_height = Some 0\<rparr>]"
    by (simp add: objectChanges_def getNeighbors_6_6 neighborChange_def getTile_flatMap i)
  from updateMap_wf[of flatMap obeliskAndExcavator, OF wf_flatMap] g obtain cs m1 where
    u: "collectChanges flatMap obeliskAndExcavator = Inr cs" "updateMap obeliskAndExcavator flatMap = Inr m1"
       "\<And>x y. inGrid x y \<Longrightarrow> tileAt m1 x y =
          foldl (\<lambda>t c. if ch_x c = x \<and> ch_y c = y then changeTile c t else t) (tileAt flatMap x y) cs"
    by blast
  from u(2) t(1) have e: "m1 = mn" by simp
  from u(1) have cs: "cs = [\<lparr>ch_x = 4, ch_y = 5, ch_type = None, ch_height = Some 2\<rparr>,
               \<lparr>ch_x = 6, ch_y = 5, ch_type = None, ch_height = Some 2\<rparr>,
               \<lparr>ch_x = 5, ch_y = 4, ch_type = None, ch_height = Some 2\<rparr>,
               \<lparr>ch_x = 5, ch_y = 6, ch_type = None, ch_height = Some 2\<rparr>,
               \<lparr>ch_x = 5, ch_y = 6, ch_type = None, ch_height = Some 0\<rparr>,
               \<lparr>ch_x = 7, ch_y = 6, ch_type = None, ch_height = Some 0\<rparr>,
               \<lparr>ch_x = 6, ch_y = 5, ch_type = None, ch_height = Some 0\<rparr>,
               \<lparr>ch_x = 6, ch_y = 7, ch_type = None, ch_height = Some 0\<rparr>]"
    by (simp add: obeliskAndExcavator_def cO cE)
  have v: "tileAt mn 5 5 = \<lparr>ttype = GRASS, height = 1\<rparr>" "tileAt mn 4 5 = \<lparr>ttype = GRASS, height = 2\<rparr>"
    "tileAt mn 6 5 = \<lparr>ttype = GRASS, height = 0\<rparr>" "tileAt mn 5 4 = \<lparr>ttype = GRASS, height = 2\<rparr>"
    "tileAt mn 5 6 = \<lparr>ttype = GRASS, height = 0\<rparr>"
    unfolding e[symmetric] u(3)[OF i(1)] u(3)[OF i(3)] u(3)[OF i(4)] u(3)[OF i(5)] u(3)[OF i(6)] cs
    by (simp_all add: tileAt_flatMap i changeTile_def)
  have cO1: "objectChanges mn ?O =
          Inr [\<lparr>ch_x = 4, ch_y = 5, ch_type = None, ch_height = Some 3\<rparr>,
               \<lparr>ch_x = 6, ch_y = 5, ch_type = None, ch_height = Some 1\<rparr>,
               \<lparr>ch_x = 5, ch_y = 4, ch_type = None, ch_height = Some 3\<rparr>,
               \<lparr>ch_x = 5, ch_y = 6, ch_type = None, ch_height = Some 1\<rparr>]"
    by (simp add: objectChanges_def getNeighbors_5_5 neighborChange_def getTile_tileAt[OF t(3)] i v)
  from t cO1 cE v i wf_flatMap wf_flatMap_nonneg show ?thesis by auto
qed

section \<open>Fountain scenario\<close>

text \<open>
  Claim C6. If the only placed object is a fountain (effect \<open>raise_water\<close>) at \<open>(5, 5)\<close>
  whose own tile is grass of height 1, and the tile at \<open>(6, 5)\<close> is grass of height 1, then
  after one tick the tile at \<open>(6, 5)\<close> is water of height 1.
\<close>

theorem fountain_scenario:
  assumes "wf_map m"
    and "getTile m 5 5 = Inr (Some \<lparr>ttype = GRASS, height = 1\<rparr>)"
    and "getTile m 6 5 = Inr (Some \<lparr>ttype = GRASS, height = 1\<rparr>)"
  shows "\<exists>m'. updateMap [\<lparr>obj_x = 5, obj_y = 5, obj_type = fountain, obj_effect = raise_water\<rparr>] m = Inr m' \<and>
              getTile m' 6 5 = Inr (Some \<lparr>ttype = WATER, height = 1\<rparr>)"
proof -
  let ?F = "\<lparr>obj_x = 5, obj_y = 5, obj_type = fountain, obj_effect = raise_water\<rparr>"
  let ?c = "\<lambda>x y. \<lparr>ch_x = x, ch_y = y, ch_type = Some WATER, ch_height = Some 1\<rparr>"
  have i: "inGrid 5 5" "inGrid 6 5" "inGrid 4 5" "inGrid 5 4" "inGrid 5 6"
    by (simp_all add: inGrid_def gridSize_def)
  have g: "\<And>obj. obj \<in> set [?F] \<Longrightarrow> inGrid (obj_x obj) (obj_y obj)" using i by simp
  from updateMap_wf[of m "[?F]", OF assms(1) g] obtain cs m' where
    u: "collectChanges m [?F] = Inr cs" "updateMap [?F] m = Inr m'" "wf_map m'"
       "\<And>x y. inGrid x y \<Longrightarrow> tileAt m' x y =
          foldl (\<lambda>t c. if ch_x c = x \<and> ch_y c = y then changeTile c t else t) (tileAt m x y) cs"
    by blast
  have n: "neighborChange m ?F (Some \<lparr>ttype = GRASS, height = 1\<rparr>) (x, y) =
             Inr (if ttype (tileAt m x y) \<noteq> WATER then [?c x y] else [])" if "inGrid x y" for x y
    using that assms(1) by (simp add: neighborChange_def getTile_tileAt)
  have t65: "tileAt m 6 5 = \<lparr>ttype = GRASS, height = 1\<rparr>"
    using assms(3) getTile_tileAt[OF assms(1) i(2)] by simp
  have "collectChanges m [?F] =
          Inr ((if ttype (tileAt m 4 5) \<noteq> WATER then [?c 4 5] else []) @ [?c 6 5] @
               (if ttype (tileAt m 5 4) \<noteq> WATER then [?c 5 4] else []) @
               (if ttype (tileAt m 5 6) \<noteq> WATER then [?c 5 6] else []))"
    by (simp add: objectChanges_def assms(2) getNeighbors_5_5 n i t65)
  with u(1) have cs: "cs = (if ttype (tileAt m 4 5) \<noteq> WATER then [?c 4 5] else []) @ [?c 6 5] @
               (if ttype (tileAt m 5 4) \<noteq> WATER then [?c 5 4] else []) @
               (if ttype (tileAt m 5 6) \<noteq> WATER then [?c 5 6] else [])"
    by simp
  have "tileAt m' 6 5 = \<lparr>ttype = WATER, height = 1\<rparr>"
    unfolding u(4)[OF i(2)] cs by (simp add: changeTile_def)
  with u(2,3) i(2) show ?thesis by (simp add: getTile_tileAt)
qed

theorem fountain_scenario_witness:
  "wf_map flatMap \<and>
   getTile flatMap 5 5 = Inr (Some \<lparr>ttype = GRASS, height = 1\<rparr>) \<and>
   getTile flatMap 6 5 = Inr (Some \<lparr>ttype = GRASS, height = 1\<rparr>) \<and>
   tileAfterTick [\<lparr>obj_x = 5, obj_y = 5, obj_type = fountain, obj_effect = raise_water\<rparr>] flatMap 6 5 =
     Inr (Some \<lparr>ttype = WATER, height = 1\<rparr>)"
proof -
  have t: "getTile flatMap 5 5 = Inr (Some \<lparr>ttype = GRASS, height = 1\<rparr>)"
    "getTile flatMap 6 5 = Inr (Some \<lparr>ttype = GRASS, height = 1\<rparr>)"
    by (simp_all add: getTile_def getRow_def flatMap_def)
  from fountain_scenario[OF wf_flatMap t] wf_flatMap t show ?thesis
    by (auto simp: tileAfterTick_def)
qed

section \<open>Placement and occupancy\<close>

lemma find_occupied:
  "find (\<lambda>obj. obj_x obj = x \<and> obj_y obj = y) objects = None \<longleftrightarrow> \<not> occupied objects x y"
  by (auto simp: find_None_iff occupied_def list_ex_iff)

lemma click_occupied:
  "occupied objects x y \<Longrightarrow>
   handleCanvasClick (Some tool) (Some (x, y)) objects = (Some AlreadyOccupied, objects)"
  using find_occupied[of x y objects]
  by (cases "find (\<lambda>obj. obj_x obj = x \<and> obj_y obj = y) objects")
     (simp_all add: handleCanvasClick_def)

lemma click_free:
  "\<not> occupied objects x y \<Longrightarrow>
   handleCanvasClick (Some tool) (Some (x, y)) objects =
     (None, objects @ [\<lparr>obj_x = x, obj_y = y, obj_type = tool, obj_effect = OBJECT_TYPES_effect tool\<rparr>])"
  using find_occupied[of x y objects] by (simp add: handleCanvasClick_def)

lemma occupied_positions: "occupied objects x y \<longleftrightarrow> (x, y) \<in> set (positions objects)"
  by (auto simp: occupied_def positions_def list_ex_iff)

lemma click_distinct:
  "distinct (positions objects) \<Longrightarrow>
   distinct (positions (snd (handleCanvasClick selectedTool hoveredTile objects)))"
proof (cases selectedTool)
  case None
  assume "distinct (positions objects)"
  with None show ?thesis by (simp add: handleCanvasClick_def)
next
  case (Some tool)
  assume d: "distinct (positions objects)"
  show ?thesis
  proof (cases hoveredTile)
    case None
    with Some d show ?thesis by (simp add: handleCanvasClick_def)
  next
    case (Some p)
    obtain x y where p: "p = (x, y)" by (cases p)
    show ?thesis
    proof (cases "occupied objects x y")
      case True
      with d \<open>selectedTool = Some tool\<close> Some p show ?thesis by (simp add: click_occupied)
    next
      case False
      then have "(x, y) \<notin> set (positions objects)" by (simp add: occupied_positions)
      with d False \<open>selectedTool = Some tool\<close> Some p show ?thesis
        by (simp add: click_free positions_def)
    qed
  qed
qed

lemma clicks_distinct:
  "distinct (positions objects) \<Longrightarrow> distinct (positions (clicks events objects))"
proof (induction events arbitrary: objects)
  case Nil
  then show ?case by simp
next
  case (Cons e events)
  obtain tool hov where e: "e = (tool, hov)" by (cases e)
  from Cons.IH[OF click_distinct[OF Cons.prems, of tool hov]] e show ?case by simp
qed

lemma bij_OBJECT_TYPES_effect: "bij OBJECT_TYPES_effect"
proof (rule bijI)
  show "inj OBJECT_TYPES_effect"
  proof (rule injI)
    fix a b assume "OBJECT_TYPES_effect a = OBJECT_TYPES_effect b"
    then show "a = b" by (cases a; cases b) simp_all
  qed
  show "surj OBJECT_TYPES_effect"
  proof (rule surjI)
    fix e
    show "OBJECT_TYPES_effect (case e of raise_water \<Rightarrow> fountain | lower_terrain \<Rightarrow> excavator
            | raise_terrain \<Rightarrow> obelisk | spread_grass \<Rightarrow> tree) = e"
      by (cases e) simp_all
  qed
qed

text \<open>
  Claim C5. A click with a tool selected on a hovered cell that already holds an object
  shows the "already occupied" notification and leaves the object list unchanged;
  on a free cell it appends the new object, whose effect is the one \<open>OBJECT_TYPES\<close> gives
  for its kind (a one-to-one correspondence between kinds and effects). Consequently
  any sequence of clicks keeps the objects on pairwise different cells, in particular
  when it starts from the empty list.
\<close>

theorem placement_occupancy:
  "(occupied objects x y \<longrightarrow>
      handleCanvasClick (Some tool) (Some (x, y)) objects = (Some AlreadyOccupied, objects)) \<and>
   (\<not> occupied objects x y \<longrightarrow>
      handleCanvasClick (Some tool) (Some (x, y)) objects =
        (None, objects @ [\<lparr>obj_x = x, obj_y = y, obj_type = tool,
                            obj_effect = OBJECT_TYPES_effect tool\<rparr>])) \<and>
   bij OBJECT_TYPES_effect \<and>
   (distinct (positions objects) \<longrightarrow> distinct (positions (clicks events objects))) \<and>
   distinct (positions (clicks events []))"
  using click_occupied[of objects x y tool] click_free[of objects x y tool]
    bij_OBJECT_TYPES_effect clicks_distinct[of objects events] clicks_distinct[of "[]" events]
  by (simp add: positions_def)

theorem placement_occupancy_witness:
  "occupied [\<lparr>obj_x = 2, obj_y = 3, obj_type = tree, obj_effect = spread_grass\<rparr>] 2 3 \<and>
   \<not> occupied [\<lparr>obj_x = 2, obj_y = 3, obj_type = tree, obj_effect = spread_grass\<rparr>] 4 4 \<and>
   distinct (positions [\<lparr>obj_x = 2, obj_y = 3, obj_type = tree, obj_effect = spread_grass\<rparr>]) \<and>
   handleCanvasClick (Some obelisk) (Some (2, 3))
       [\<lparr>obj_x = 2, obj_y = 3, obj_type = tree, obj_effect = spread_grass\<rparr>] =
     (Some AlreadyOccupied, [\<lparr>obj_x = 2, obj_y = 3, obj_type = tree, obj_effect = spread_grass\<rparr>]) \<and>
   handleCanvasClick (Some obelisk) (Some (4, 4))
       [\<lparr>obj_x = 2, obj_y = 3, obj_type = tree, obj_effect = spread_grass\<rparr>] =
     (None, [\<lparr>obj_x = 2, obj_y = 3, obj_type = tree, obj_effect = spread_grass\<rparr>,
             \<lparr>obj_x = 4, obj_y = 4, obj_type = obelisk, obj_effect = raise_terrain\<rparr>]) \<and>
   distinct (positions (clicks [(Some obelisk, Some (4, 4)), (Some fountain, Some (4, 4)), (None, Some (1, 1))]
       [\<lparr>obj_x = 2, obj_y = 3, obj_type = tree, obj_effect = spread_grass\<rparr>]))"
  using placement_occupancy[of "[\<lparr>obj_x = 2, obj_y = 3, obj_type = tree, obj_effect = spread_grass\<rparr>]" 2 3 obelisk
      "[(Some obelisk, Some (4, 4)), (Some fountain, Some (4, 4)), (None, Some (1, 1))]"]
    placement_occupancy[of "[\<lparr>obj_x = 2, obj_y = 3, obj_type = tree, obj_effect = spread_grass\<rparr>]" 4 4 obelisk
      "[(Some obelisk, Some (4, 4)), (Some fountain, Some (4, 4)), (None, Some (1, 1))]"]
  by (simp add: occupied_def positions_def)

section \<open>Map generation: the lake\<close>

lemma randomHeight_range: "0 \<le> u \<Longrightarrow> u < 1 \<Longrightarrow> randomHeight u = 1 \<or> randomHeight u = 2"
proof -
  assume a: "0 \<le> u" "u < 1"
  then have "0 \<le> \<lfloor>u * 2\<rfloor>" "\<lfloor>u * 2\<rfloor> < 2" by (simp_all add: floor_less_iff)
  then show ?thesis unfolding randomHeight_def by linarith
qed

lemma wf_fillMap: "wf_map (fillMap rnd)"
  by (simp add: wf_map_def fillMap_def gridSize_def list_all_iff)

lemma tileAt_fillMap:
  assumes "inGrid x y"
  shows "tileAt (fillMap rnd) x y = \<lparr>ttype = GRASS, height = randomHeight (rnd (nat y * 16 + nat x))\<rparr>"
proof -
  from assms have "nat y < 16" "nat x < 16" unfolding inGrid_def gridSize_def by linarith+
  then show ?thesis by (simp add: tileAt_def fillMap_def gridSize_def)
qed

lemma lakeCell_wf:
  assumes "wf_map m"
  shows "lakeCell m (i, j) =
           (if \<bar>i\<bar> + \<bar>j\<bar> < 3 then setTile m (8 + j) (8 + i) \<lparr>ttype = WATER, height = 0\<rparr> else m)"
proof (cases "\<bar>i\<bar> + \<bar>j\<bar> < 3")
  case True
  then have "inGrid (8 + j) (8 + i)" unfolding inGrid_def gridSize_def by linarith
  from getTile_tileAt[OF assms this] True show ?thesis
    by (simp add: lakeCell_def gridSize_def)
next
  case False
  then show ?thesis by (simp add: lakeCell_def)
qed

lemma foldl_lakeCell:
  "wf_map m \<Longrightarrow>
   wf_map (foldl lakeCell m ps) \<and>
   (\<forall>x y. inGrid x y \<longrightarrow>
      tileAt (foldl lakeCell m ps) x y =
        (if \<exists>(i, j) \<in> set ps. \<bar>i\<bar> + \<bar>j\<bar> < 3 \<and> x = 8 + j \<and> y = 8 + i
         then \<lparr>ttype = WATER, height = 0\<rparr> else tileAt m x y))"
proof (induction ps arbitrary: m)
  case Nil
  then show ?case by simp
next
  case (Cons p ps)
  obtain i j where p: "p = (i, j)" by (cases p)
  let ?m1 = "lakeCell m (i, j)"
  have w1: "wf_map ?m1" using Cons.prems by (simp add: lakeCell_wf wf_map_setTile)
  have t1: "tileAt ?m1 x y =
        (if \<bar>i\<bar> + \<bar>j\<bar> < 3 \<and> x = 8 + j \<and> y = 8 + i then \<lparr>ttype = WATER, height = 0\<rparr> else tileAt m x y)"
    if g: "inGrid x y" for x y
  proof (cases "\<bar>i\<bar> + \<bar>j\<bar> < 3")
    case True
    then have "inGrid (8 + j) (8 + i)" unfolding inGrid_def gridSize_def by linarith
    from tileAt_setTile[OF Cons.prems this g] True show ?thesis
      by (simp add: lakeCell_wf[OF Cons.prems])
  next
    case False
    then show ?thesis by (simp add: lakeCell_wf[OF Cons.prems])
  qed
  from Cons.IH[OF w1] have
    ih: "wf_map (foldl lakeCell ?m1 ps)"
        "\<And>x y. inGrid x y \<Longrightarrow> tileAt (foldl lakeCell ?m1 ps) x y =
           (if \<exists>(i, j) \<in> set ps. \<bar>i\<bar> + \<bar>j\<bar> < 3 \<and> x = 8 + j \<and> y = 8 + i
            then \<lparr>ttype = WATER, height = 0\<rparr> else tileAt ?m1 x y)"
    by blast+
  show ?case
  proof (intro conjI allI impI)
    show "wf_map (foldl lakeCell m (p # ps))" using ih(1) p by simp
  next
    fix x y assume g: "inGrid x y"
    show "tileAt (foldl lakeCell m (p # ps)) x y =
        (if \<exists>(i, j) \<in> set (p # ps). \<bar>i\<bar> + \<bar>j\<bar> < 3 \<and> x = 8 + j \<and> y = 8 + i
         then \<lparr>ttype = WATER, height = 0\<rparr> else tileAt m x y)"
      using ih(2)[OF g] t1[OF g] p by auto
  qed
qed

lemma set_pairs: "set (concat (map (\<lambda>i. map (\<lambda>j. (i, j)) js) is)) = set is \<times> set js"
  by auto

lemma lake_offsets:
  "(\<exists>(i, j) \<in> set (concat (map (\<lambda>i. map (\<lambda>j. (i, j)) [-2..2]) [-2..2])).
       \<bar>i\<bar> + \<bar>j\<bar> < 3 \<and> x = 8 + j \<and> y = 8 + i) \<longleftrightarrow> \<bar>x - 8\<bar> + \<bar>y - 8\<bar> < 3"
proof -
  have S: "set (concat (map (\<lambda>i. map (\<lambda>j. (i, j)) [-2..2]) [-2..2])) = {-2..2} \<times> {-2..2}"
    by (simp only: set_pairs set_upto)
  show ?thesis unfolding S
  proof
    assume "\<exists>(i, j) \<in> {-2..2} \<times> {-2..2}. \<bar>i\<bar> + \<bar>j\<bar> < 3 \<and> x = 8 + j \<and> y = 8 + i"
    then obtain i j where "\<bar>i\<bar> + \<bar>j\<bar> < 3" "x = 8 + j" "y = 8 + i" by auto
    then show "\<bar>x - 8\<bar> + \<bar>y - 8\<bar> < 3" by simp
  next
    assume a: "\<bar>x - 8\<bar> + \<bar>y - 8\<bar> < 3"
    then have "(y - 8, x - 8) \<in> {-2..2} \<times> {-2..2}" by auto
    moreover from a have "\<bar>y - 8\<bar> + \<bar>x - 8\<bar> < 3 \<and> x = 8 + (x - 8) \<and> y = 8 + (y - 8)" by simp
    ultimately show "\<exists>(i, j) \<in> {-2..2} \<times> {-2..2}. \<bar>i\<bar> + \<bar>j\<bar> < 3 \<and> x = 8 + j \<and> y = 8 + i"
      by blast
  qed
qed

lemma generateMap_tiles:
  "wf_map (generateMap rnd)"
  "inGrid x y \<Longrightarrow> tileAt (generateMap rnd) x y =
     (if \<bar>x - 8\<bar> + \<bar>y - 8\<bar> < 3 then \<lparr>ttype = WATER, height = 0\<rparr>
      else \<lparr>ttype = GRASS, height = randomHeight (rnd (nat y * 16 + nat x))\<rparr>)"
  using foldl_lakeCell[OF wf_fillMap, of rnd "concat (map (\<lambda>i. map (\<lambda>j. (i, j)) [-2..2]) [-2..2])"]
  unfolding lake_offsets generateMap_def by (simp_all add: tileAt_fillMap)

text \<open>
  Claim C2. Whatever values in \<open>[0, 1)\<close> the calls of \<open>Math.random()\<close> return, the map that
  \<open>generateMap\<close> builds is fully populated with non-negative heights, every cell of the
  grid at Manhattan distance less than 3 from the center \<open>(8, 8)\<close> is water of height 0,
  and every other cell of the grid is grass of height 1 or 2.
\<close>

theorem lake_invariant:
  assumes "\<forall>k. 0 \<le> rnd k \<and> rnd k < 1" "inGrid x y"
  shows "wf_map (generateMap rnd) \<and> heights_nonneg (generateMap rnd) \<and>
         (\<bar>x - 8\<bar> + \<bar>y - 8\<bar> < 3 \<longrightarrow>
            getTile (generateMap rnd) x y = Inr (Some \<lparr>ttype = WATER, height = 0\<rparr>)) \<and>
         (\<not> \<bar>x - 8\<bar> + \<bar>y - 8\<bar> < 3 \<longrightarrow>
            (\<exists>h \<in> {1, 2}. getTile (generateMap rnd) x y = Inr (Some \<lparr>ttype = GRASS, height = h\<rparr>)))"
proof -
  note w = generateMap_tiles(1)[of rnd]
  have r: "randomHeight (rnd k) = 1 \<or> randomHeight (rnd k) = 2" for k
    using assms(1) randomHeight_range[of "rnd k"] by blast
  have nn: "0 \<le> height (tileAt (generateMap rnd) a b)" if "inGrid a b" for a b
    using generateMap_tiles(2)[OF that, of rnd] r[of "nat b * 16 + nat a"] by auto
  then have "heights_nonneg (generateMap rnd)" by (simp add: heights_nonneg_tileAt[OF w])
  moreover have "getTile (generateMap rnd) x y = Inr (Some \<lparr>ttype = WATER, height = 0\<rparr>)"
    if "\<bar>x - 8\<bar> + \<bar>y - 8\<bar> < 3"
    using that generateMap_tiles(2)[OF assms(2), of rnd] getTile_tileAt[OF w assms(2)] by simp
  moreover have "\<exists>h \<in> {1, 2}. getTile (generateMap rnd) x y = Inr (Some \<lparr>ttype = GRASS, height = h\<rparr>)"
    if "\<not> \<bar>x - 8\<bar> + \<bar>y - 8\<bar> < 3"
    using that generateMap_tiles(2)[OF assms(2), of rnd] getTile_tileAt[OF w assms(2)]
      r[of "nat y * 16 + nat x"] by auto
  ultimately show ?thesis using w by blast
qed

theorem lake_invariant_witness:
  "(0::real) \<le> 1 / 2 \<and> (1 / 2 :: real) < 1 \<and> inGrid 9 7 \<and> inGrid 0 15 \<and>
   \<bar>9 - 8\<bar> + \<bar>7 - 8\<bar> < (3::int) \<and> \<not> \<bar>0 - 8\<bar> + \<bar>15 - 8\<bar> < (3::int) \<and>
   wf_map (generateMap (\<lambda>k. 1 / 2)) \<and>
   getTile (generateMap (\<lambda>k. 1 / 2)) 9 7 = Inr (Some \<lparr>ttype = WATER, height = 0\<rparr>) \<and>
   getTile (generateMap (\<lambda>k. 1 / 2)) 0 15 = Inr (Some \<lparr>ttype = GRASS, height = 2\<rparr>)"
proof -
  have h: "\<forall>k::nat. (0::real) \<le> 1 / 2 \<and> (1 / 2 :: real) < 1" by simp
  have i: "inGrid 9 7" "inGrid 0 15" by (simp_all add: inGrid_def gridSize_def)
  have r: "randomHeight (1 / 2) = 2" by (simp add: randomHeight_def)
  from lake_invariant[of "\<lambda>k. 1 / 2" 9 7, OF h i(1)] lake_invariant[of "\<lambda>k. 1 / 2" 0 15, OF h i(2)]
  have "wf_map (generateMap (\<lambda>k. 1 / 2))"
    "getTile (generateMap (\<lambda>k. 1 / 2)) 9 7 = Inr (Some \<lparr>ttype = WATER, height = 0\<rparr>)"
    "\<exists>h \<in> {1, 2}. getTile (generateMap (\<lambda>k. 1 / 2)) 0 15 = Inr (Some \<lparr>ttype = GRASS, height = h\<rparr>)"
    by simp_all
  moreover have "tileAt (generateMap (\<lambda>k. 1 / 2)) 0 15 = \<lparr>ttype = GRASS, height = 2\<rparr>"
    using generateMap_tiles(2)[OF i(2), of "\<lambda>k. 1 / 2"] r by simp
  ultimately show ?thesis using i getTile_tileAt[of "generateMap (\<lambda>k. 1 / 2)" 0 15] by simp
qed

section \<open>Picking\<close>

declare scanRow.simps [simp del] scanRows.simps [simp del]

lemma scanRow_end: "\<not> x < gridSize \<Longrightarrow> scanRow rnd m r mx my y x = Inr None"
  by (subst scanRow.simps) simp

lemma scanRow_step:
  assumes "wf_map m" "inGrid x y"
  shows "scanRow rnd m r mx my y x =
           (if candidateHit rnd m r mx my x y then Inr (Some (getRotatedCoords r x y))
            else scanRow rnd m r mx my y (x + 1))"
proof -
  obtain a b where ab: "getRotatedCoords r x y = (a, b)" by (cases "getRotatedCoords r x y")
  with getRotatedCoords_inGrid[OF assms(2), of r] have "inGrid a b" by simp
  from getTile_tileAt[OF assms(1) this] ab assms(2) show ?thesis
    by (subst scanRow.simps) (simp add: candidateHit_def inGrid_def)
qed

lemma scanRow_none:
  assumes "wf_map m" "0 \<le> y" "y < gridSize"
  shows "0 \<le> x \<Longrightarrow> (\<And>x'. x \<le> x' \<Longrightarrow> x' < gridSize \<Longrightarrow> \<not> candidateHit rnd m r mx my x' y) \<Longrightarrow>
         scanRow rnd m r mx my y x = Inr None"
proof (induction "nat (gridSize - x)" arbitrary: x)
  case 0
  then show ?case by (simp add: scanRow_end)
next
  case (Suc n)
  then have x: "x < gridSize" by linarith
  with Suc.prems(1) assms(2,3) have g: "inGrid x y" by (simp add: inGrid_def)
  have "scanRow rnd m r mx my y (x + 1) = Inr None"
    using Suc.hyps(1)[of "x + 1"] Suc.hyps(2) Suc.prems by simp
  with Suc.prems(2)[of x] x show ?case by (simp add: scanRow_step[OF assms(1) g])
qed

lemma scanRow_first:
  assumes "wf_map m" "0 \<le> y" "y < gridSize" "x0 < gridSize" "candidateHit rnd m r mx my x0 y"
  shows "0 \<le> x \<Longrightarrow> x \<le> x0 \<Longrightarrow>
         (\<And>x'. x \<le> x' \<Longrightarrow> x' < x0 \<Longrightarrow> \<not> candidateHit rnd m r mx my x' y) \<Longrightarrow>
         scanRow rnd m r mx my y x = Inr (Some (getRotatedCoords r x0 y))"
proof (induction "nat (x0 - x)" arbitrary: x)
  case 0
  then have e: "x = x0" by simp
  with 0 assms have "inGrid x0 y" by (simp add: inGrid_def)
  from scanRow_step[OF assms(1) this] assms(5) e show ?case by simp
next
  case (Suc n)
  then have x: "x < x0" by linarith
  with Suc.prems(1) assms(2,3,4) have g: "inGrid x y" by (simp add: inGrid_def)
  have "scanRow rnd m r mx my y (x + 1) = Inr (Some (getRotatedCoords r x0 y))"
    using Suc.hyps(1)[of "x + 1"] Suc.hyps(2) Suc.prems x by simp
  with Suc.prems(3)[of x] x show ?case by (simp add: scanRow_step[OF assms(1) g])
qed



lemma scanRows_first:
  assumes "wf_map m" "inGrid x0 y0" "candidateHit rnd m r mx my x0 y0"
    "\<And>x y. inGrid x y \<Longrightarrow> y < y0 \<or> (y = y0 \<and> x < x0) \<Longrightarrow> \<not> candidateHit rnd m r mx my x y"
  shows "0 \<le> y \<Longrightarrow> y \<le> y0 \<Longrightarrow> scanRows rnd m r mx my y = Inr (Some (getRotatedCoords r x0 y0))"
proof (induction "nat (y0 - y)" arbitrary: y)
  case 0
  then have e: "y = y0" by simp
  from assms(2) have b: "0 \<le> y0" "y0 < gridSize" "0 \<le> x0" "x0 < gridSize" by (simp_all add: inGrid_def)
  have "scanRow rnd m r mx my y0 0 = Inr (Some (getRotatedCoords r x0 y0))"
    using scanRow_first[OF assms(1) b(1,2,4) assms(3), of 0] assms(4) b
    by (simp add: inGrid_def)
  with e b show ?case by (subst scanRows.simps) simp
next
  case (Suc n)
  then have y: "y < y0" by linarith
  from assms(2) have b: "0 \<le> y0" "y0 < gridSize" by (simp_all add: inGrid_def)
  with y have yg: "y < gridSize" by simp
  have "scanRow rnd m r mx my y 0 = Inr None"
    using scanRow_none[OF assms(1) Suc.prems(1) yg, where x = 0 and rnd = rnd and r = r and mx = mx and my = my]
      assms(4) Suc.prems(1) y yg
    by (simp add: inGrid_def)
  moreover have "scanRows rnd m r mx my (y + 1) = Inr (Some (getRotatedCoords r x0 y0))"
    using Suc.hyps(1)[of "y + 1"] Suc.hyps(2) Suc.prems y by simp
  ultimately show ?case using yg by (subst scanRows.simps) simp
qed



lemma rnd_eq: "exactOnIntegers rnd \<Longrightarrow> r = of_int k \<Longrightarrow> \<bar>k\<bar> \<le> 2 ^ 53 \<Longrightarrow> rnd r = of_int k"
  by (simp add: exactOnIntegers_def)

lemma abs_of_int_less_1: "\<bar>of_int k :: real\<bar> < 1 \<longleftrightarrow> k = 0"
proof -
  have "\<bar>of_int k :: real\<bar> = of_int \<bar>k\<bar>" by simp
  also have "(of_int \<bar>k\<bar> :: real) < 1 \<longleftrightarrow> \<bar>k\<bar> < 1" by (metis of_int_less_iff of_int_1)
  finally show ?thesis by auto
qed

lemma isoToScreen_int: "isoToScreen x y = (of_int (32 * (x - y) + 512), of_int (16 * (x + y)))"
  by (simp add: isoToScreen_def isoTileWidth_def isoTileHeight_def canvas_width_def gridSize_def)

lemma tileY_exact:
  assumes E: "exactOnIntegers rnd" and g: "inGrid x y" and b: "\<bar>height t\<bar> \<le> 1000"
  shows "tileY rnd (isoToScreen x y) t = of_int (16 * (x + y) - 16 * height t)"
proof -
  have 1: "rnd (of_int (height t) * heightStep) = of_int (16 * height t)"
    by (rule rnd_eq[OF E]) (use b in \<open>simp_all add: heightStep_def isoTileHeight_def\<close>)
  have 2: "rnd (of_int (16 * (x + y)) - of_int (16 * height t)) = of_int (16 * (x + y) - 16 * height t)"
    by (rule rnd_eq[OF E]) (use b g in \<open>auto simp add: inGrid_def gridSize_def\<close>)
  show ?thesis unfolding tileY_def isoToScreen_int snd_conv 1 2 ..
qed

lemma center_test_exact:
  assumes E: "exactOnIntegers rnd" and g: "inGrid vx vy" "inGrid x y"
    and b: "\<bar>h\<bar> \<le> 1000" "\<bar>height t\<bar> \<le> 1000"
  shows "inTileArea rnd (of_int (32 * (vx - vy) + 544)) (of_int (16 * (vx + vy) - 16 * h)) (isoToScreen x y) t \<and>
         inDiamond rnd (of_int (32 * (vx - vy) + 544)) (of_int (16 * (vx + vy) - 16 * h)) (isoToScreen x y) t
         \<longleftrightarrow> 2 * (vx - x) = h - height t \<and> 2 * (vy - y) = h - height t"
proof -
  note ty = tileY_exact[OF E g(2) b(2)]
  from g have r: "0 \<le> vx" "vx < 16" "0 \<le> vy" "vy < 16" "0 \<le> x" "x < 16" "0 \<le> y" "y < 16"
    by (simp_all add: inGrid_def gridSize_def)
  have lo: "rnd (of_int (16 * (x + y) - 16 * height t) - isoTileHeight) =
              of_int (16 * (x + y) - 16 * height t - 32)"
    by (rule rnd_eq[OF E]) (use b r in \<open>simp_all add: isoTileHeight_def\<close>)
  have hi: "rnd (of_int (16 * (x + y) - 16 * height t) + isoTileHeight) =
              of_int (16 * (x + y) - 16 * height t + 32)"
    by (rule rnd_eq[OF E]) (use b r in \<open>simp_all add: isoTileHeight_def\<close>)
  have dx: "rnd (of_int (32 * (vx - vy) + 544) - (of_int (32 * (x - y) + 512) + isoTileWidth / 2)) =
              of_int (32 * ((vx - vy) - (x - y)))"
    by (rule rnd_eq[OF E]) (use r in \<open>simp_all add: isoTileWidth_def\<close>)
  have dy: "rnd (of_int (16 * (vx + vy) - 16 * h) - of_int (16 * (x + y) - 16 * height t)) =
              of_int (16 * ((vx + vy) - (x + y) - (h - height t)))"
    by (rule rnd_eq[OF E]) (use b r in simp_all)
  have a: "rnd (of_int (32 * ((vx - vy) - (x - y))) / (isoTileWidth / 2)) = of_int ((vx - vy) - (x - y))"
    by (rule rnd_eq[OF E]) (use r in \<open>simp_all add: isoTileWidth_def\<close>)
  have c: "rnd (of_int (16 * ((vx + vy) - (x + y) - (h - height t))) / (isoTileHeight / 2)) =
              of_int ((vx + vy) - (x + y) - (h - height t))"
    by (rule rnd_eq[OF E]) (use b r in \<open>simp_all add: isoTileHeight_def\<close>)
  have tx: "rnd (of_int ((vx - vy) - (x - y)) + of_int ((vx + vy) - (x + y) - (h - height t))) =
              of_int (2 * (vx - x) - (h - height t))"
    by (rule rnd_eq[OF E]) (use b r in simp_all)
  have ty': "rnd (of_int ((vx + vy) - (x + y) - (h - height t)) - of_int ((vx - vy) - (x - y))) =
              of_int (2 * (vy - y) - (h - height t))"
    by (rule rnd_eq[OF E]) (use b r in simp_all)
  have D: "inDiamond rnd (of_int (32 * (vx - vy) + 544)) (of_int (16 * (vx + vy) - 16 * h)) (isoToScreen x y) t
        \<longleftrightarrow> 2 * (vx - x) - (h - height t) = 0 \<and> 2 * (vy - y) - (h - height t) = 0"
    unfolding inDiamond_def Let_def ty unfolding isoToScreen_int fst_conv dx dy a c tx ty' abs_of_int_less_1 ..
  have A: "inTileArea rnd (of_int (32 * (vx - vy) + 544)) (of_int (16 * (vx + vy) - 16 * h)) (isoToScreen x y) t
        \<longleftrightarrow> 32 * (x - y) + 512 \<le> 32 * (vx - vy) + 544 \<and> 32 * (vx - vy) + 544 \<le> 32 * (x - y) + 512 + 64 \<and>
            16 * (x + y) - 16 * height t - 32 \<le> 16 * (vx + vy) - 16 * h \<and>
            16 * (vx + vy) - 16 * h \<le> 16 * (x + y) - 16 * height t + 32"
  proof -
    have w: "of_int (32 * (x - y) + 512) + isoTileWidth = (of_int (32 * (x - y) + 512 + 64) :: real)"
      by (simp add: isoTileWidth_def)
    show ?thesis
      unfolding inTileArea_def ty lo hi unfolding isoToScreen_int fst_conv w of_int_le_iff ..
  qed
  show ?thesis unfolding D A by auto
qed


lemma tileAt_halfMap:
  "inGrid x y \<Longrightarrow> tileAt (generateMap alwaysHalf) x y =
     (if \<bar>x - 8\<bar> + \<bar>y - 8\<bar> < 3 then \<lparr>ttype = WATER, height = 0\<rparr> else \<lparr>ttype = GRASS, height = 2\<rparr>)"
  using generateMap_tiles(2)[of x y alwaysHalf] by (simp add: randomHeight_def alwaysHalf_def)

lemma candidateHit_halfMap:
  assumes E: "exactOnIntegers rnd" and g: "inGrid x y"
  shows "candidateHit rnd (generateMap alwaysHalf) 0 608 288 x y \<longleftrightarrow>
           2 * (11 - x) = 2 - height (tileAt (generateMap alwaysHalf) x y) \<and>
           2 * (9 - y) = 2 - height (tileAt (generateMap alwaysHalf) x y)"
proof -
  have i: "inGrid 11 9" by (simp add: inGrid_def gridSize_def)
  have b: "\<bar>height (tileAt (generateMap alwaysHalf) x y)\<bar> \<le> 1000"
    by (simp add: tileAt_halfMap[OF g])
  from center_test_exact[OF E i g _ b, of 2] show ?thesis
    by (simp add: candidateHit_def getRotatedCoords_def)
qed

text \<open>
  Claim C7, at an input where the code fails it. On the map that \<open>generateMap\<close> builds when
  every call of \<open>Math.random()\<close> returns one half, under rotation 0, the grass tile at
  \<open>(11, 9)\<close> has height 2 and the lake tile at \<open>(10, 8)\<close> has height 0. Their top faces are
  the same diamond, centered at the canvas point \<open>(608, 388)\<close>, and \<open>draw\<close> paints
  \<open>(11, 9)\<close> last, on top. At that point the test of the loop body passes for \<open>(11, 9)\<close>,
  yet \<open>screenToIso\<close> returns \<open>(10, 8)\<close>, the covered tile, which its loops reach first: they
  run in the order of \<open>draw\<close>, back to front, where the comment in \<open>screenToIso\<close> announces a
  scan from front to back. This holds for every rounding that is exact on integers, as
  that of the doubles is.
\<close>

theorem pick_returns_hidden_tile:
  assumes "exactOnIntegers rnd"
  shows "getTile (generateMap alwaysHalf) 11 9 = Inr (Some \<lparr>ttype = GRASS, height = 2\<rparr>) \<and>
         getTile (generateMap alwaysHalf) 10 8 = Inr (Some \<lparr>ttype = WATER, height = 0\<rparr>) \<and>
         topFaceCenter 11 9 \<lparr>ttype = GRASS, height = 2\<rparr> = (608, 388) \<and>
         candidateHit rnd (generateMap alwaysHalf) 0 608 (rnd (388 - 100)) 11 9 \<and>
         screenToIso rnd (generateMap alwaysHalf) 0 608 388 = Inr (Some (10, 8)) \<and>
         screenToIso rnd (generateMap alwaysHalf) 0 608 388 \<noteq> Inr (Some (11, 9))"
proof -
  let ?M = "generateMap alwaysHalf"
  have w: "wf_map ?M" by (rule generateMap_tiles(1))
  have i: "inGrid 11 9" "inGrid 10 8" by (simp_all add: inGrid_def gridSize_def)
  have ay: "rnd 288 = 288"
    using rnd_eq[OF assms, of 288 288] by simp
  note ch = candidateHit_halfMap[OF assms]
  have h1: "candidateHit rnd ?M 0 608 288 11 9" unfolding ch[OF i(1)] by (simp add: tileAt_halfMap[OF i(1)])
  have h0: "candidateHit rnd ?M 0 608 288 10 8" unfolding ch[OF i(2)] by (simp add: tileAt_halfMap[OF i(2)])
  have nh: "\<not> candidateHit rnd ?M 0 608 288 x y" if g: "inGrid x y" and e: "y < 8 \<or> (y = 8 \<and> x < 10)" for x y
  proof
    assume "candidateHit rnd ?M 0 608 288 x y"
    then have c: "2 * (11 - x) = 2 - height (tileAt ?M x y)" "2 * (9 - y) = 2 - height (tileAt ?M x y)"
      unfolding ch[OF g] by simp_all
    have "height (tileAt ?M x y) = 0 \<or> height (tileAt ?M x y) = 2"
      by (simp add: tileAt_halfMap[OF g])
    with c e show False by auto
  qed
  have s: "screenToIso rnd ?M 0 608 388 = Inr (Some (10, 8))"
    using scanRows_first[OF w i(2) h0 nh, of 0]
    by (simp add: screenToIso_def ay getRotatedCoords_def)
  have c: "topFaceCenter 11 9 \<lparr>ttype = GRASS, height = 2\<rparr> = (608, 388)"
    by (simp add: topFaceCenter_def isoToScreen_def isoTileWidth_def isoTileHeight_def
        heightStep_def canvas_width_def gridSize_def)
  have g: "getTile ?M 11 9 = Inr (Some \<lparr>ttype = GRASS, height = 2\<rparr>)"
    "getTile ?M 10 8 = Inr (Some \<lparr>ttype = WATER, height = 0\<rparr>)"
    by (simp_all add: getTile_tileAt[OF w] i tileAt_halfMap)
  from s c g h1 ay show ?thesis by simp
qed

theorem pick_returns_hidden_tile_witness:
  "exactOnIntegers id \<and>
   candidateHit id (generateMap alwaysHalf) 0 608 288 11 9 \<and>
   screenToIso id (generateMap alwaysHalf) 0 608 388 = Inr (Some (10, 8))"
proof -
  have e: "exactOnIntegers id" by (simp add: exactOnIntegers_def)
  from pick_returns_hidden_tile[OF e] e show ?thesis by simp
qed

end
